theory Spec2Isabelle
  imports Complex_Main "HOL-Library.Word" "HOL-Library.Stream" "HOL-Library.AList"
begin

section \<open>ClientTypes.h: identifiers, states, messages, the queue\<close>

text \<open>
  \<^verbatim>\<open>clientId_t\<close> and every timestamp and counter of the program are \<^verbatim>\<open>uint32_t\<close>:
  32-bit words, on which \<open>+\<close> and \<open>-\<close> wrap around as the C++ operators do.
\<close>

type_synonym uint32_t = "32 word"
type_synonym clientId_t = "32 word"

text \<open>The enumerators in declaration order; a value-initialised \<^verbatim>\<open>ClientState\<close> is \<open>ONLINE\<close>.\<close>

datatype ClientState = ONLINE | OFFLINE

datatype ClientMessageType = HEARTBEAT | DISCOVERY | GOSSIP

type_synonym ClientList = "clientId_t list"

text \<open>
  A \<^verbatim>\<open>hash_set\<close> that the modelled code never iterates is a set. A \<^verbatim>\<open>ClientStateMap\<close>
  (\<^verbatim>\<open>hash_map<clientId_t, ClientState>\<close>) is iterated, so it is an association list whose
  order stands for the iteration order of the table; a table holds each key once, which is
  the predicate \<open>csm_ok\<close>.
\<close>

type_synonym ClientSet = "clientId_t set"
type_synonym ClientStateMap = "(clientId_t \<times> ClientState) list"

definition csm_ok :: "ClientStateMap \<Rightarrow> bool" where
  "csm_ok m = distinct (map fst m)"

text \<open>
  \<^verbatim>\<open>m[k]\<close> read as an rvalue: a missing key is inserted with the value-initialised state
  \<open>ONLINE\<close>, so the read returns the table as well. \<^verbatim>\<open>m[k] = v\<close> overwrites the entry of
  \<open>k\<close> in place or adds one.
\<close>

definition csm_index :: "ClientStateMap \<Rightarrow> clientId_t \<Rightarrow> ClientState \<times> ClientStateMap" where
  "csm_index m k = (case map_of m k of
                      Some v \<Rightarrow> (v, m)
                    | None \<Rightarrow> (ONLINE, m @ [(k, ONLINE)]))"

definition csm_assign :: "clientId_t \<Rightarrow> ClientState \<Rightarrow> ClientStateMap \<Rightarrow> ClientStateMap" where
  "csm_assign k v m = AList.update k v m"

record ClientMessage =
  recipientId :: clientId_t
  senderId :: clientId_t
  timestamp :: uint32_t
  gossipId :: uint32_t
  messageType :: ClientMessageType
  clientChain :: ClientSet

text \<open>\<^verbatim>\<open>std::queue\<close>: \<^verbatim>\<open>front\<close> is the head of the list, \<^verbatim>\<open>push\<close> appends, \<^verbatim>\<open>pop\<close> is the tail.\<close>

type_synonym MessageQueue = "ClientMessage list"

text \<open>
  What the C++ leaves undefined is an error value of the model: an index past the end of a
  vector or of the client array, and a remainder by a size that is zero.
\<close>

datatype error = IndexOutOfRange | DivideByZero

text \<open>
  \<^verbatim>\<open>rand()\<close> reads a global generator. The model threads the sequence of its future results,
  an infinite stream of naturals: a call returns the head and leaves the tail.
\<close>

type_synonym rand_src = "nat stream"

section \<open>Stats.h: the statistics sink\<close>

text \<open>
  The field \<^verbatim>\<open>state_\<close> of the class is \<open>stats_state\<close> here, since \<^verbatim>\<open>Client\<close> has a field of
  the same name. The two hash maps are never iterated: they are maps.
\<close>

record SimulatorStatistics =
  totalConvergenceTime :: uint32_t
  totalPresenceUpdates :: uint32_t
  totalMessagesSent :: uint32_t
  totalDroppedMessages :: uint32_t
  totalBuddyRecords :: uint32_t
  totalCorrectBuddyRecords :: uint32_t
  totalSleepTime :: uint32_t
  totalSleepStates :: uint32_t
  stateSwitches :: "clientId_t \<rightharpoonup> uint32_t"
  stats_state :: "clientId_t \<rightharpoonup> ClientState"

text \<open>
  The constructor zeroes seven counters and leaves \<^verbatim>\<open>totalSleepStates_\<close> uninitialised: its
  first value is a parameter.
\<close>

definition SimulatorStatistics_new :: "uint32_t \<Rightarrow> SimulatorStatistics" where
  "SimulatorStatistics_new u =
     \<lparr>totalConvergenceTime = 0, totalPresenceUpdates = 0, totalMessagesSent = 0,
      totalDroppedMessages = 0, totalBuddyRecords = 0, totalCorrectBuddyRecords = 0,
      totalSleepTime = 0, totalSleepStates = u,
      stateSwitches = Map.empty, stats_state = Map.empty\<rparr>"

definition addConvergenceTime :: "uint32_t \<Rightarrow> SimulatorStatistics \<Rightarrow> SimulatorStatistics" where
  "addConvergenceTime t st = st\<lparr>totalConvergenceTime := totalConvergenceTime st + t\<rparr>"

definition addSleepTime :: "uint32_t \<Rightarrow> SimulatorStatistics \<Rightarrow> SimulatorStatistics" where
  "addSleepTime t st = st\<lparr>totalSleepTime := totalSleepTime st + t\<rparr>"

definition incrementSleepStates :: "SimulatorStatistics \<Rightarrow> SimulatorStatistics" where
  "incrementSleepStates st = st\<lparr>totalSleepStates := totalSleepStates st + 1\<rparr>"

definition incrementPresenceUpdates :: "SimulatorStatistics \<Rightarrow> SimulatorStatistics" where
  "incrementPresenceUpdates st = st\<lparr>totalPresenceUpdates := totalPresenceUpdates st + 1\<rparr>"

definition incrementMessagesSent :: "SimulatorStatistics \<Rightarrow> SimulatorStatistics" where
  "incrementMessagesSent st = st\<lparr>totalMessagesSent := totalMessagesSent st + 1\<rparr>"

definition incrementMessagesDropped :: "SimulatorStatistics \<Rightarrow> SimulatorStatistics" where
  "incrementMessagesDropped st = st\<lparr>totalDroppedMessages := totalDroppedMessages st + 1\<rparr>"

definition incrementTotalBuddyRecords :: "SimulatorStatistics \<Rightarrow> SimulatorStatistics" where
  "incrementTotalBuddyRecords st = st\<lparr>totalBuddyRecords := totalBuddyRecords st + 1\<rparr>"

definition incrementTotalCorrectBuddyRecords :: "SimulatorStatistics \<Rightarrow> SimulatorStatistics" where
  "incrementTotalCorrectBuddyRecords st =
     st\<lparr>totalCorrectBuddyRecords := totalCorrectBuddyRecords st + 1\<rparr>"

definition addStateSwitch ::
  "clientId_t \<Rightarrow> uint32_t \<Rightarrow> ClientState \<Rightarrow> SimulatorStatistics \<Rightarrow> SimulatorStatistics" where
  "addStateSwitch cid ts s st =
     st\<lparr>stateSwitches := (stateSwitches st)(cid \<mapsto> ts),
        stats_state := (stats_state st)(cid \<mapsto> s)\<rparr>"

text \<open>Both getters insert a default entry for a missing key, so they return the sink too.\<close>

definition getLastStateSwitch ::
  "SimulatorStatistics \<Rightarrow> clientId_t \<Rightarrow> uint32_t \<times> SimulatorStatistics" where
  "getLastStateSwitch st cid =
     (case stateSwitches st cid of
        None \<Rightarrow> (0, st\<lparr>stateSwitches := (stateSwitches st)(cid \<mapsto> 0)\<rparr>)
      | Some ts \<Rightarrow> (ts, st))"

definition getLastState ::
  "SimulatorStatistics \<Rightarrow> clientId_t \<Rightarrow> ClientState \<times> SimulatorStatistics" where
  "getLastState st cid =
     (case stats_state st cid of
        None \<Rightarrow> (ONLINE, st\<lparr>stats_state := (stats_state st)(cid \<mapsto> ONLINE)\<rparr>)
      | Some s \<Rightarrow> (s, st))"

text \<open>The values the two getters return, as pure reads of the sink.\<close>

definition lastStateSwitch :: "SimulatorStatistics \<Rightarrow> clientId_t \<Rightarrow> uint32_t" where
  "lastStateSwitch st cid = fst (getLastStateSwitch st cid)"

definition lastState :: "SimulatorStatistics \<Rightarrow> clientId_t \<Rightarrow> ClientState" where
  "lastState st cid = fst (getLastState st cid)"

section \<open>Client.h: the base class\<close>

text \<open>
  The pointers \<^verbatim>\<open>messageQueue_\<close> and \<^verbatim>\<open>stats_\<close> of a client name the simulator's one queue
  and one sink: every member function that uses them takes the queue or the sink and
  returns it updated.
\<close>

record Client =
  clientId :: clientId_t
  buddyCount :: uint32_t
  nodeCount :: uint32_t
  sleepPeriod :: uint32_t
  observerCount :: uint32_t
  state :: ClientState
  buddies :: ClientList
  observers :: ClientList
  buddiesSet :: ClientSet
  observersSet :: ClientSet
  buddyState :: ClientStateMap

text \<open>The base constructor; \<open>ext\<close> is what the derived constructor adds.\<close>

definition Client_new ::
  "clientId_t \<Rightarrow> uint32_t \<Rightarrow> uint32_t \<Rightarrow> uint32_t \<Rightarrow> ClientState \<Rightarrow> 'a \<Rightarrow> 'a Client_scheme" where
  "Client_new cid bc nc initialSleepPeriod initialState ext =
     \<lparr>clientId = cid, buddyCount = bc, nodeCount = nc, sleepPeriod = initialSleepPeriod,
      observerCount = 0, state = initialState, buddies = [], observers = [],
      buddiesSet = {}, observersSet = {}, buddyState = [], \<dots> = ext\<rparr>"

definition switchState :: "'a Client_scheme \<Rightarrow> uint32_t \<Rightarrow> ClientState \<times> 'a Client_scheme" where
  "switchState c ts =
     (let c' = (if state c = ONLINE then c\<lparr>state := OFFLINE\<rparr> else c\<lparr>state := ONLINE\<rparr>)
      in (state c', c'))"

definition addBuddy ::
  "'a Client_scheme \<Rightarrow> clientId_t \<Rightarrow> ClientState \<Rightarrow> bool \<times> 'a Client_scheme" where
  "addBuddy c buddyId bs =
     (if clientId c = buddyId \<or> buddyId \<in> buddiesSet c then (False, c)
      else (True, c\<lparr>buddies := buddies c @ [buddyId],
                    buddiesSet := insert buddyId (buddiesSet c),
                    buddyState := csm_assign buddyId bs (buddyState c)\<rparr>))"

definition addObserver :: "'a Client_scheme \<Rightarrow> clientId_t \<Rightarrow> bool \<times> 'a Client_scheme" where
  "addObserver c cid =
     (if clientId c = cid \<or> cid \<in> observersSet c then (False, c)
      else (True, c\<lparr>observers := observers c @ [cid],
                    observersSet := insert cid (observersSet c),
                    observerCount := observerCount c + 1\<rparr>))"

text \<open>
  \<^verbatim>\<open>VerifyState\<close> walks \<^verbatim>\<open>buddyState_\<close> and reads \<^verbatim>\<open>stateMap[b]\<close> through a non-const
  reference: the caller's map comes back, with a default entry for every key it lacked.
  The two locals \<^verbatim>\<open>totalRecords\<close> and \<^verbatim>\<open>correctRecords\<close> are never used.
\<close>

fun VerifyState_loop ::
  "ClientStateMap \<Rightarrow> ClientStateMap \<Rightarrow> SimulatorStatistics \<Rightarrow> ClientStateMap \<times> SimulatorStatistics"
where
  "VerifyState_loop [] stateMap st = (stateMap, st)"
| "VerifyState_loop (e # rest) stateMap st =
     (let st1 = incrementTotalBuddyRecords st;
          (truth, stateMap1) = csm_index stateMap (fst e);
          st2 = (if truth = snd e then incrementTotalCorrectBuddyRecords st1 else st1)
      in VerifyState_loop rest stateMap1 st2)"

definition VerifyState ::
  "'a Client_scheme \<Rightarrow> ClientStateMap \<Rightarrow> SimulatorStatistics \<Rightarrow> ClientStateMap \<times> SimulatorStatistics"
where
  "VerifyState c stateMap st = VerifyState_loop (buddyState c) stateMap st"

definition getClientId :: "'a Client_scheme \<Rightarrow> clientId_t" where
  "getClientId c = clientId c"

definition getState :: "'a Client_scheme \<Rightarrow> ClientState" where
  "getState c = state c"

definition getBuddyCount :: "'a Client_scheme \<Rightarrow> nat" where
  "getBuddyCount c = card (buddiesSet c)"

definition isOnline :: "'a Client_scheme \<Rightarrow> bool" where
  "isOnline c = (state c = ONLINE)"

definition createMessage ::
  "'a Client_scheme \<Rightarrow> clientId_t \<Rightarrow> ClientMessageType \<Rightarrow> uint32_t \<Rightarrow> uint32_t \<Rightarrow> ClientSet
     \<Rightarrow> ClientMessage" where
  "createMessage c rid ty ts gid chain =
     \<lparr>recipientId = rid, senderId = clientId c, timestamp = ts, gossipId = gid,
      messageType = ty, clientChain = chain\<rparr>"

section \<open>Client.h: the gossip client\<close>

text \<open>
  The private map \<^verbatim>\<open>lastBuddyUpdate_\<close> of \<^verbatim>\<open>GossipClient\<close> is never read or written
  and is left out.
\<close>

record GossipClient = Client +
  lastGossipRequest :: uint32_t
  messagesSent :: uint32_t
  gossipedNodes :: ClientSet

definition GossipClient_new ::
  "clientId_t \<Rightarrow> uint32_t \<Rightarrow> uint32_t \<Rightarrow> uint32_t \<Rightarrow> ClientState \<Rightarrow> GossipClient" where
  "GossipClient_new cid bc nc initialSleepPeriod initialState =
     Client_new cid bc nc initialSleepPeriod initialState
       \<lparr>lastGossipRequest = 0, messagesSent = 0, gossipedNodes = {}\<rparr>"

text \<open>
  The statements that credit one presence update, the same in every place:
  \<^verbatim>\<open>incrementPresenceUpdates(); senderSwitchTime = getLastStateSwitch(id);
  delta = timestamp - senderSwitchTime; addConvergenceTime(delta)\<close>.
\<close>

definition creditUpdate ::
  "clientId_t \<Rightarrow> uint32_t \<Rightarrow> SimulatorStatistics \<Rightarrow> SimulatorStatistics" where
  "creditUpdate cid ts st =
     (let st1 = incrementPresenceUpdates st;
          (senderSwitchTime, st2) = getLastStateSwitch st1 cid;
          delta = ts - senderSwitchTime
      in addConvergenceTime delta st2)"

text \<open>
  The loop of the new-cycle branch (lines 195-205), over the keys of \<^verbatim>\<open>buddyState_\<close>.
  Assigning to a key the table holds moves no entry, so the walk is over the keys as they
  were when it began.
\<close>

fun handleMessage_reset ::
  "clientId_t list \<Rightarrow> ClientMessage \<Rightarrow> GossipClient \<Rightarrow> SimulatorStatistics
     \<Rightarrow> GossipClient \<times> SimulatorStatistics" where
  "handleMessage_reset [] m c st = (c, st)"
| "handleMessage_reset (b # rest) m c st =
     (let c1 = c\<lparr>buddyState := csm_assign b OFFLINE (buddyState c)\<rparr>;
          (s, st1) = getLastState st b;
          st2 = (if s = OFFLINE then creditUpdate (senderId m) (timestamp m) st1 else st1)
      in handleMessage_reset rest m c1 st2)"

text \<open>Lines 189-206: the check for a new gossip cycle.\<close>

definition handleMessage_newCycle ::
  "GossipClient \<Rightarrow> ClientMessage \<Rightarrow> SimulatorStatistics \<Rightarrow> GossipClient \<times> SimulatorStatistics"
where
  "handleMessage_newCycle c m st =
     (if lastGossipRequest c \<noteq> gossipId m then
        (let c1 = c\<lparr>gossipedNodes := {}, messagesSent := 0, lastGossipRequest := gossipId m\<rparr>
         in handleMessage_reset (map fst (buddyState c1)) m c1 st)
      else (c, st))"

text \<open>
  Lines 218-220: \<^verbatim>\<open>while (observers_[randomNode] == clientId_) randomNode = rand() %
  buddies_.size()\<close>. The loop may read past the end of \<^verbatim>\<open>observers_\<close>, divide by zero, or
  never end (the value \<open>None\<close>).
\<close>

partial_function (option) handleMessage_pick ::
  "GossipClient \<Rightarrow> clientId_t \<Rightarrow> rand_src \<Rightarrow> (error + clientId_t \<times> rand_src) option" where
  "handleMessage_pick c randomNode g =
     (if length (observers c) \<le> unat randomNode then Some (Inl IndexOutOfRange)
      else if observers c ! unat randomNode = clientId c then
        (if buddies c = [] then Some (Inl DivideByZero)
         else handleMessage_pick c (of_nat (shd g mod length (buddies c))) (stl g))
      else Some (Inr (randomNode, g)))"

text \<open>The loop of lines 227-242, which marks every buddy \<open>ONLINE\<close>.\<close>

fun handleMessage_promote ::
  "clientId_t list \<Rightarrow> ClientMessage \<Rightarrow> GossipClient \<Rightarrow> SimulatorStatistics
     \<Rightarrow> GossipClient \<times> SimulatorStatistics" where
  "handleMessage_promote [] m c st = (c, st)"
| "handleMessage_promote (b # rest) m c st =
     (let (cur, bs0) = csm_index (buddyState c) b;
          st2 = (if cur \<noteq> ONLINE then
                   (let (s, st1) = getLastState st b
                    in if s = ONLINE then creditUpdate (senderId m) (timestamp m) st1 else st1)
                 else st);
          c1 = c\<lparr>buddyState := csm_assign b ONLINE bs0\<rparr>
      in handleMessage_promote rest m c1 st2)"

text \<open>Lines 208-253: the cap on forwards, the choice of an observer, the chain, the forward.\<close>

definition handleMessage_forward ::
  "GossipClient \<Rightarrow> ClientMessage \<Rightarrow> MessageQueue \<Rightarrow> SimulatorStatistics \<Rightarrow> rand_src
     \<Rightarrow> (error + GossipClient \<times> MessageQueue \<times> SimulatorStatistics \<times> rand_src) option" where
  "handleMessage_forward c m q st g =
     (if 5 \<le> messagesSent c then Some (Inr (c, q, st, g))
      else if observers c = [] then Some (Inl DivideByZero)
      else
        (case handleMessage_pick c (of_nat (shd g mod length (observers c))) (stl g) of
           None \<Rightarrow> None
         | Some (Inl e) \<Rightarrow> Some (Inl e)
         | Some (Inr (randomNode, g1)) \<Rightarrow>
             (let chain = clientChain m;
                  c1 = c\<lparr>gossipedNodes := gossipedNodes c \<union> chain\<rparr>;
                  (c2, st1) = handleMessage_promote (map fst (buddyState c1)) m c1 st;
                  chain1 = insert (clientId c2) chain;
                  q1 = q @ [createMessage c2 (observers c2 ! unat randomNode) GOSSIP
                              (timestamp m) (gossipId m) chain1]
              in Some (Inr (c2\<lparr>messagesSent := messagesSent c2 + 1\<rparr>, q1, st1, g1)))))"

definition GossipClient_handleMessage ::
  "GossipClient \<Rightarrow> ClientMessage \<Rightarrow> MessageQueue \<Rightarrow> SimulatorStatistics \<Rightarrow> rand_src
     \<Rightarrow> (error + GossipClient \<times> MessageQueue \<times> SimulatorStatistics \<times> rand_src) option" where
  "GossipClient_handleMessage c m q st g =
     (if \<not> isOnline c then Some (Inr (c, q, st, g))
      else (let (c1, st1) = handleMessage_newCycle c m st
            in handleMessage_forward c1 m q st1 g))"

text \<open>The two loops of \<^verbatim>\<open>runTasks\<close>, lines 270-272 and 274-276.\<close>

partial_function (option) runTasks_pick1 ::
  "GossipClient \<Rightarrow> clientId_t \<Rightarrow> rand_src \<Rightarrow> (error + clientId_t \<times> rand_src) option" where
  "runTasks_pick1 c randomNode1 g =
     (if length (observers c) \<le> unat randomNode1 then Some (Inl IndexOutOfRange)
      else if observers c ! unat randomNode1 = clientId c then
        runTasks_pick1 c (of_nat (shd g mod length (observers c))) (stl g)
      else Some (Inr (randomNode1, g)))"

partial_function (option) runTasks_pick2 ::
  "GossipClient \<Rightarrow> clientId_t \<Rightarrow> clientId_t \<Rightarrow> rand_src
     \<Rightarrow> (error + clientId_t \<times> rand_src) option" where
  "runTasks_pick2 c randomNode1 randomNode2 g =
     (if length (buddies c) \<le> unat randomNode2 then Some (Inl IndexOutOfRange)
      else if buddies c ! unat randomNode2 = clientId c \<or> randomNode2 = randomNode1 then
        runTasks_pick2 c randomNode1 (of_nat (shd g mod length (buddies c))) (stl g)
      else Some (Inr (randomNode2, g)))"

definition GossipClient_runTasks ::
  "GossipClient \<Rightarrow> uint32_t \<Rightarrow> MessageQueue \<Rightarrow> rand_src
     \<Rightarrow> (error + GossipClient \<times> MessageQueue \<times> rand_src) option" where
  "GossipClient_runTasks c ts q g =
     (if \<not> isOnline c then Some (Inr (c, q, g))
      else
        (let c1 = c\<lparr>messagesSent := 2, gossipedNodes := {}\<rparr>
         in if observers c1 = [] then Some (Inl DivideByZero)
            else
              (let randomNode1 = of_nat (shd g mod length (observers c1));
                   randomNode2 = of_nat (shd (stl g) mod length (observers c1))
               in case runTasks_pick1 c1 randomNode1 (stl (stl g)) of
                    None \<Rightarrow> None
                  | Some (Inl e) \<Rightarrow> Some (Inl e)
                  | Some (Inr (r1, g1)) \<Rightarrow>
                      (case runTasks_pick2 c1 r1 randomNode2 g1 of
                         None \<Rightarrow> None
                       | Some (Inl e) \<Rightarrow> Some (Inl e)
                       | Some (Inr (r2, g2)) \<Rightarrow>
                           (let c2 = c1\<lparr>lastGossipRequest := ts\<rparr>;
                                chain = {clientId c2};
                                q1 = q @ [createMessage c2 (observers c2 ! unat r1) GOSSIP
                                            ts ts chain]
                            in if length (observers c2) \<le> unat r2
                               then Some (Inl IndexOutOfRange)
                               else Some (Inr (c2,
                                      q1 @ [createMessage c2 (observers c2 ! unat r2) GOSSIP
                                              ts ts chain], g2)))))))"

section \<open>Client.h: the heartbeat client\<close>

text \<open>
  Of the private fields of \<^verbatim>\<open>HeartbeatClient\<close>, the second \<^verbatim>\<open>sleepPeriod_\<close> and the six
  \<^verbatim>\<open>lastSleep...\<close> fields are never used and are left out. \<^verbatim>\<open>lastBuddyUpdate_\<close> is never
  iterated: a map.
\<close>

record HeartbeatClient = Client +
  nextObserver :: uint32_t
  lastMessageTimestamp :: uint32_t
  lastBuddyUpdate :: "clientId_t \<rightharpoonup> uint32_t"

definition HeartbeatClient_new ::
  "clientId_t \<Rightarrow> uint32_t \<Rightarrow> uint32_t \<Rightarrow> uint32_t \<Rightarrow> ClientState \<Rightarrow> HeartbeatClient" where
  "HeartbeatClient_new cid bc nc initialSleepPeriod initialState =
     Client_new cid bc nc initialSleepPeriod initialState
       \<lparr>nextObserver = 0, lastMessageTimestamp = 0, lastBuddyUpdate = Map.empty\<rparr>"

text \<open>
  In \<^verbatim>\<open>handleMessage\<close> the locals \<^verbatim>\<open>senderState\<close> and \<^verbatim>\<open>lastBuddyUpdate\<close> are read and
  never used; the reads still insert default entries, the second one overwritten by the
  last statement.
\<close>

definition HeartbeatClient_handleMessage ::
  "HeartbeatClient \<Rightarrow> ClientMessage \<Rightarrow> SimulatorStatistics \<Rightarrow> HeartbeatClient \<times> SimulatorStatistics"
where
  "HeartbeatClient_handleMessage c m st =
     (if \<not> isOnline c then (c, st)
      else
        (let (cur, bs0) = csm_index (buddyState c) (senderId m);
             st1 = (if cur = OFFLINE then
                      (let st2 = incrementPresenceUpdates st;
                           (senderSwitchTime, st3) = getLastStateSwitch st2 (senderId m);
                           (senderState, st4) = getLastState st3 (senderId m);
                           delta = timestamp m - senderSwitchTime
                       in addConvergenceTime delta st4)
                    else st)
         in (c\<lparr>buddyState := csm_assign (senderId m) ONLINE bs0,
               lastBuddyUpdate := (lastBuddyUpdate c)(senderId m \<mapsto> timestamp m)\<rparr>, st1)))"

text \<open>
  Lines 360-371, the emission. \<^verbatim>\<open>++nextObserver_ >= observers_.size()\<close> compares the
  incremented 32-bit cursor with a \<^verbatim>\<open>size_t\<close>.
\<close>

definition runTasks_emit ::
  "HeartbeatClient \<Rightarrow> uint32_t \<Rightarrow> MessageQueue \<Rightarrow> error + HeartbeatClient \<times> MessageQueue" where
  "runTasks_emit c ts q =
     (if 11 < ts - lastMessageTimestamp c then
        (if length (observers c) \<le> unat (nextObserver c) then Inl IndexOutOfRange
         else
           (let q1 = q @ [createMessage c (observers c ! unat (nextObserver c)) HEARTBEAT ts 0 {}];
                c1 = c\<lparr>lastMessageTimestamp := ts\<rparr>;
                n = nextObserver c1 + 1
            in Inr (c1\<lparr>nextObserver := (if length (observers c1) \<le> unat n then 0 else n)\<rparr>, q1)))
      else Inr (c, q))"

text \<open>
  Lines 373-399, the staleness sweep over the vector \<^verbatim>\<open>buddies_\<close>. The threshold
  \<^verbatim>\<open>observers_.size() * 12 * 3\<close> is computed in \<^verbatim>\<open>size_t\<close>, which a vector's size times 36
  does not overflow, and the 32-bit delta is widened for the comparison.
\<close>

fun runTasks_sweep ::
  "clientId_t list \<Rightarrow> uint32_t \<Rightarrow> HeartbeatClient \<Rightarrow> SimulatorStatistics
     \<Rightarrow> HeartbeatClient \<times> SimulatorStatistics" where
  "runTasks_sweep [] ts c st = (c, st)"
| "runTasks_sweep (b # rest) ts c st =
     (let (cur, bs0) = csm_index (buddyState c) b;
          c0 = c\<lparr>buddyState := bs0\<rparr>
      in if cur = OFFLINE then runTasks_sweep rest ts c0 st
         else
           (let lastBuddyUpdate0 = (case lastBuddyUpdate c0 b of None \<Rightarrow> 0 | Some u \<Rightarrow> u);
                lastUpdateDelta = ts - lastBuddyUpdate0
            in if length (observers c0) * 12 * 3 < unat lastUpdateDelta then
                 (let st1 = incrementPresenceUpdates st;
                      (senderSwitchTime, st2) = getLastStateSwitch st1 b;
                      (senderState, st3) = getLastState st2 b;
                      delta = ts - senderSwitchTime;
                      st4 = addConvergenceTime delta st3;
                      c1 = c0\<lparr>buddyState := csm_assign b OFFLINE (buddyState c0)\<rparr>
                  in runTasks_sweep rest ts c1 st4)
               else runTasks_sweep rest ts c0 st))"

definition HeartbeatClient_runTasks ::
  "HeartbeatClient \<Rightarrow> uint32_t \<Rightarrow> MessageQueue \<Rightarrow> SimulatorStatistics
     \<Rightarrow> error + HeartbeatClient \<times> MessageQueue \<times> SimulatorStatistics" where
  "HeartbeatClient_runTasks c ts q st =
     (if \<not> isOnline c then Inr (c, q, st)
      else
        (case runTasks_emit c ts q of
           Inl e \<Rightarrow> Inl e
         | Inr (c1, q1) \<Rightarrow>
             (let (c2, st1) = runTasks_sweep (buddies c1) ts c1 st in Inr (c2, q1, st1))))"

section \<open>ClientSimulator.h: the simulator core\<close>

text \<open>
  The class template \<^verbatim>\<open>ClientSimulator<ClientType, nodeCount, buddyCount, timespan>\<close>: the
  client type is the extension \<open>'a\<close> of the client record, and the two virtual member
  functions the core calls are passed as arguments. The array \<^verbatim>\<open>clients_\<close> is filled in
  index order, so it is a list that grows. \<^verbatim>\<open>sleepSchedule_\<close> is never iterated as a whole:
  a map from a timestamp to the set of ids due then.
\<close>

record 'a ClientSimulator =
  clients :: "'a Client_scheme list"
  onlineClients :: ClientSet
  offlineClients :: ClientSet
  messageQueue :: MessageQueue
  stats :: SimulatorStatistics
  clientState :: ClientStateMap
  sleepSchedule :: "uint32_t \<rightharpoonup> ClientSet"

text \<open>\<^verbatim>\<open>sleepSchedule_[t].insert(id)\<close>: the entry of \<open>t\<close> is created empty when missing.\<close>

definition schedule_insert ::
  "uint32_t \<Rightarrow> clientId_t \<Rightarrow> (uint32_t \<rightharpoonup> ClientSet) \<Rightarrow> (uint32_t \<rightharpoonup> ClientSet)" where
  "schedule_insert t cid sched =
     sched(t \<mapsto> insert cid (case sched t of None \<Rightarrow> {} | Some ids \<Rightarrow> ids))"

definition generateRandomState :: "rand_src \<Rightarrow> ClientState \<times> rand_src" where
  "generateRandomState g = (if shd g mod 2 = 0 then (ONLINE, stl g) else (OFFLINE, stl g))"

text \<open>The body of the first loop of \<^verbatim>\<open>initialize\<close> (lines 71-93), for the index \<open>i\<close>.\<close>

definition initialize_client ::
  "'a \<Rightarrow> uint32_t \<Rightarrow> uint32_t \<Rightarrow> clientId_t \<Rightarrow> 'a ClientSimulator \<times> rand_src
     \<Rightarrow> 'a ClientSimulator \<times> rand_src" where
  "initialize_client ext nc bc i simg =
     (let sim = fst simg; g = snd simg;
          initialSleepPeriod = of_nat (shd g mod 4000);
          (initialState, g1) = generateRandomState (stl g);
          c = Client_new i bc nc initialSleepPeriod initialState ext;
          sim1 = sim\<lparr>clients := clients sim @ [c],
                     sleepSchedule := schedule_insert initialSleepPeriod i (sleepSchedule sim)\<rparr>;
          sim2 = sim1\<lparr>stats := addStateSwitch (getClientId c) 0 (getState c) (stats sim1)\<rparr>;
          sim3 = sim2\<lparr>clientState := csm_assign i initialState (clientState sim2)\<rparr>
      in (if initialState = ONLINE
          then sim3\<lparr>onlineClients := insert i (onlineClients sim3)\<rparr>
          else sim3\<lparr>offlineClients := insert i (offlineClients sim3)\<rparr>, g1))"

text \<open>
  The inner loop of the second part (lines 107-114), for the node \<open>j\<close>: it draws candidates
  until the node has \<^verbatim>\<open>buddyCount\<close> buddies, and need not end.
\<close>

partial_function (option) initialize_buddies ::
  "uint32_t \<Rightarrow> uint32_t \<Rightarrow> clientId_t \<Rightarrow> 'a Client_scheme list \<Rightarrow> rand_src
     \<Rightarrow> (error + 'a Client_scheme list \<times> rand_src) option" where
  "initialize_buddies nc bc j cs g =
     (if length cs \<le> unat j then Some (Inl IndexOutOfRange)
      else if getBuddyCount (cs ! unat j) < unat bc then
        (if nc = 0 then Some (Inl DivideByZero)
         else if length cs \<le> unat (of_nat (shd g mod unat nc) :: clientId_t)
         then Some (Inl IndexOutOfRange)
         else initialize_buddies nc bc j
                (let buddyId = of_nat (shd g mod unat nc);
                     r = addBuddy (cs ! unat j) buddyId (getState (cs ! unat buddyId));
                     cs1 = cs[unat j := snd r]
                 in if fst r
                    then cs1[unat buddyId := snd (addObserver (cs1 ! unat buddyId) j)]
                    else cs1)
                (stl g))
      else Some (Inr (cs, g)))"

fun initialize_buddyLists ::
  "uint32_t \<Rightarrow> uint32_t \<Rightarrow> clientId_t list \<Rightarrow> 'a Client_scheme list \<Rightarrow> rand_src
     \<Rightarrow> (error + 'a Client_scheme list \<times> rand_src) option" where
  "initialize_buddyLists nc bc [] cs g = Some (Inr (cs, g))"
| "initialize_buddyLists nc bc (j # js) cs g =
     (case initialize_buddies nc bc j cs g of
        None \<Rightarrow> None
      | Some (Inl e) \<Rightarrow> Some (Inl e)
      | Some (Inr (cs1, g1)) \<Rightarrow> initialize_buddyLists nc bc js cs1 g1)"

definition initialize ::
  "'a \<Rightarrow> uint32_t \<Rightarrow> uint32_t \<Rightarrow> 'a ClientSimulator \<Rightarrow> rand_src
     \<Rightarrow> (error + 'a ClientSimulator \<times> rand_src) option" where
  "initialize ext nc bc sim g =
     (let ids = map of_nat [0..<unat nc];
          (sim1, g1) = fold (initialize_client ext nc bc) ids (sim, g)
      in case initialize_buddyLists nc bc ids (clients sim1) g1 of
           None \<Rightarrow> None
         | Some (Inl e) \<Rightarrow> Some (Inl e)
         | Some (Inr (cs, g2)) \<Rightarrow> Some (Inr (sim1\<lparr>clients := cs\<rparr>, g2)))"

text \<open>
  The constructor: a new queue, a new sink (\<open>u\<close> is its uninitialised counter), the seed
  (the stream \<open>g\<close>), then \<^verbatim>\<open>initialize()\<close>.
\<close>

definition ClientSimulator_new ::
  "'a \<Rightarrow> uint32_t \<Rightarrow> uint32_t \<Rightarrow> uint32_t \<Rightarrow> rand_src
     \<Rightarrow> (error + 'a ClientSimulator \<times> rand_src) option" where
  "ClientSimulator_new ext nc bc u g =
     initialize ext nc bc
       \<lparr>clients = [], onlineClients = {}, offlineClients = {}, messageQueue = [],
        stats = SimulatorStatistics_new u, clientState = [], sleepSchedule = Map.empty\<rparr> g"

text \<open>The type of \<^verbatim>\<open>ClientType::handleMessage\<close> as the core sees it.\<close>

type_synonym 'a handler =
  "'a Client_scheme \<Rightarrow> ClientMessage \<Rightarrow> MessageQueue \<Rightarrow> SimulatorStatistics \<Rightarrow> rand_src
     \<Rightarrow> (error + 'a Client_scheme \<times> MessageQueue \<times> SimulatorStatistics \<times> rand_src) option"

definition HeartbeatClient_handler :: "unit HeartbeatClient_ext handler" where
  "HeartbeatClient_handler c m q st g =
     (let (c1, st1) = HeartbeatClient_handleMessage c m st in Some (Inr (c1, q, st1, g)))"

definition dispatchMessage ::
  "'a handler \<Rightarrow> 'a ClientSimulator \<Rightarrow> ClientMessage \<Rightarrow> rand_src
     \<Rightarrow> (error + 'a ClientSimulator \<times> rand_src) option" where
  "dispatchMessage h sim m g =
     (if length (clients sim) \<le> unat (recipientId m) then Some (Inl IndexOutOfRange)
      else
        (case h (clients sim ! unat (recipientId m)) m (messageQueue sim) (stats sim) g of
           None \<Rightarrow> None
         | Some (Inl e) \<Rightarrow> Some (Inl e)
         | Some (Inr (c, q, st, g1)) \<Rightarrow>
             Some (Inr (sim\<lparr>clients := (clients sim)[unat (recipientId m) := c],
                            messageQueue := q, stats := st\<rparr>, g1))))"

text \<open>
  One round of the loop of \<^verbatim>\<open>dispatchPendingMessages\<close> (lines 137-146), on a queue that is
  not empty: the message is handled while it is still the front of the queue, and popped
  afterwards.
\<close>

definition dispatchPending_step ::
  "'a handler \<Rightarrow> 'a ClientSimulator \<Rightarrow> rand_src \<Rightarrow> (error + 'a ClientSimulator \<times> rand_src) option"
where
  "dispatchPending_step h sim g =
     (let sim1 = sim\<lparr>stats := incrementMessagesSent (stats sim)\<rparr>
      in if shd g mod 100 < 5 then
           Some (Inr (sim1\<lparr>stats := incrementMessagesDropped (stats sim1),
                           messageQueue := tl (messageQueue sim1)\<rparr>, stl g))
         else
           (case dispatchMessage h sim1 (hd (messageQueue sim1)) (stl g) of
              None \<Rightarrow> None
            | Some (Inl e) \<Rightarrow> Some (Inl e)
            | Some (Inr (sim2, g1)) \<Rightarrow>
                Some (Inr (sim2\<lparr>messageQueue := tl (messageQueue sim2)\<rparr>, g1))))"

partial_function (option) dispatchPendingMessages ::
  "'a handler \<Rightarrow> 'a ClientSimulator \<Rightarrow> rand_src \<Rightarrow> (error + 'a ClientSimulator \<times> rand_src) option"
where
  "dispatchPendingMessages h sim g =
     (if messageQueue sim = [] then Some (Inr (sim, g))
      else Option.bind (dispatchPending_step h sim g)
             (\<lambda>r. case r of
                     Inl e \<Rightarrow> Some (Inl e)
                   | Inr simg \<Rightarrow> dispatchPendingMessages h (fst simg) (snd simg)))"

text \<open>
  \<^verbatim>\<open>switchClientState\<close> (lines 151-177). \<^verbatim>\<open>switchState\<close> is virtual; the override in
  \<^verbatim>\<open>HeartbeatClient\<close> repeats the base body word for word.
\<close>

definition switchClientState ::
  "clientId_t \<Rightarrow> uint32_t \<Rightarrow> 'a ClientSimulator \<Rightarrow> rand_src \<Rightarrow> error + 'a ClientSimulator \<times> rand_src"
where
  "switchClientState cid ts sim g =
     (if length (clients sim) \<le> unat cid then Inl IndexOutOfRange
      else
        (let c = snd (switchState (clients sim ! unat cid) ts);
             sim1 = sim\<lparr>clients := (clients sim)[unat cid := c]\<rparr>;
             sleepDuration = of_nat (shd g mod 4000) + 1;
             sim2 = sim1\<lparr>sleepSchedule :=
                      schedule_insert (ts + sleepDuration) (getClientId c) (sleepSchedule sim1)\<rparr>;
             sim3 = sim2\<lparr>stats := incrementSleepStates (addSleepTime sleepDuration (stats sim2))\<rparr>;
             sim4 = sim3\<lparr>clientState := csm_assign (getClientId c) (getState c) (clientState sim3)\<rparr>;
             sim5 = (if getState c = ONLINE
                     then sim4\<lparr>offlineClients := offlineClients sim4 - {cid},
                               onlineClients := insert cid (onlineClients sim4)\<rparr>
                     else sim4\<lparr>onlineClients := onlineClients sim4 - {cid},
                               offlineClients := insert cid (offlineClients sim4)\<rparr>)
         in Inr (sim5\<lparr>stats := addStateSwitch (getClientId c) ts (getState c) (stats sim5)\<rparr>,
                 stl g)))"

text \<open>
  The two instances of the template: \<^verbatim>\<open>GossipSimulator\<close> and \<^verbatim>\<open>HeartbeatSimulator\<close> construct
  their clients with \<^verbatim>\<open>GossipClient\<close>'s and \<^verbatim>\<open>HeartbeatClient\<close>'s constructor.
\<close>

definition GossipSimulator_new ::
  "uint32_t \<Rightarrow> uint32_t \<Rightarrow> uint32_t \<Rightarrow> rand_src
     \<Rightarrow> (error + unit GossipClient_ext ClientSimulator \<times> rand_src) option" where
  "GossipSimulator_new nc bc u g =
     ClientSimulator_new \<lparr>lastGossipRequest = 0, messagesSent = 0, gossipedNodes = {}\<rparr> nc bc u g"

definition HeartbeatSimulator_new ::
  "uint32_t \<Rightarrow> uint32_t \<Rightarrow> uint32_t \<Rightarrow> rand_src
     \<Rightarrow> (error + unit HeartbeatClient_ext ClientSimulator \<times> rand_src) option" where
  "HeartbeatSimulator_new nc bc u g =
     ClientSimulator_new
       \<lparr>nextObserver = 0, lastMessageTimestamp = 0, lastBuddyUpdate = Map.empty\<rparr> nc bc u g"

section \<open>One heartbeat node under the driver\<close>

text \<open>
  \<^verbatim>\<open>HeartbeatSimulator::run\<close> (ClientSimulator.h, lines 306-383) increments \<^verbatim>\<open>timeElapsed\<close>
  once per round of its two loops and, in a round, calls \<^verbatim>\<open>runTasks(timeElapsed)\<close> at most
  once on each node. Between two such calls a node sees \<^verbatim>\<open>handleMessage\<close> (when the queue
  is drained), \<^verbatim>\<open>switchState\<close> (from \<^verbatim>\<open>switchClientState\<close>), and the other nodes writing to
  the shared sink. A run of one node is the list of these calls in order. The queue is
  threaded through without the draining, so that it ends as the list of the messages the
  node has enqueued.
\<close>

datatype HeartbeatCall =
    RunTasks uint32_t
  | HandleMessage ClientMessage
  | SwitchState uint32_t
  | OtherNodes SimulatorStatistics

fun HeartbeatClient_calls ::
  "HeartbeatCall list \<Rightarrow> HeartbeatClient \<Rightarrow> MessageQueue \<Rightarrow> SimulatorStatistics
     \<Rightarrow> error + HeartbeatClient \<times> MessageQueue \<times> SimulatorStatistics" where
  "HeartbeatClient_calls [] c q st = Inr (c, q, st)"
| "HeartbeatClient_calls (RunTasks ts # rest) c q st =
     (case HeartbeatClient_runTasks c ts q st of
        Inl e \<Rightarrow> Inl e
      | Inr (c1, q1, st1) \<Rightarrow> HeartbeatClient_calls rest c1 q1 st1)"
| "HeartbeatClient_calls (HandleMessage m # rest) c q st =
     (let (c1, st1) = HeartbeatClient_handleMessage c m st
      in HeartbeatClient_calls rest c1 q st1)"
| "HeartbeatClient_calls (SwitchState ts # rest) c q st =
     HeartbeatClient_calls rest (snd (switchState c ts)) q st"
| "HeartbeatClient_calls (OtherNodes st1 # rest) c q st =
     HeartbeatClient_calls rest c q st1"

text \<open>The timestamps of the \<^verbatim>\<open>runTasks\<close> calls of a run, in order.\<close>

fun runTimes :: "HeartbeatCall list \<Rightarrow> uint32_t list" where
  "runTimes [] = []"
| "runTimes (RunTasks ts # rest) = ts # runTimes rest"
| "runTimes (HandleMessage m # rest) = runTimes rest"
| "runTimes (SwitchState ts # rest) = runTimes rest"
| "runTimes (OtherNodes st1 # rest) = runTimes rest"

text \<open>
  The two tests the staleness sweep makes on a buddy \<open>b\<close> (lines 375 and 387), as a
  predicate on the node: \<open>b\<close> is believed \<open>ONLINE\<close>, and the time since its last heartbeat
  (0 when none was received) exceeds \<^verbatim>\<open>observers_.size() * 12 * 3\<close>.
\<close>

definition runTasks_stale :: "HeartbeatClient \<Rightarrow> uint32_t \<Rightarrow> clientId_t \<Rightarrow> bool" where
  "runTasks_stale c ts b =
     (map_of (buddyState c) b = Some ONLINE
      \<and> length (observers c) * 12 * 3
          < unat (ts - (case lastBuddyUpdate c b of None \<Rightarrow> 0 | Some u \<Rightarrow> u)))"

section \<open>The consistency of the simulator's tables\<close>

text \<open>
  The relation between \<^verbatim>\<open>clients_\<close>, \<^verbatim>\<open>onlineClients_\<close>, \<^verbatim>\<open>offlineClients_\<close> and
  \<^verbatim>\<open>clientState_\<close> for \<open>nc\<close> nodes: the array holds \<open>nc\<close> clients, the client at index \<open>i\<close>
  has the id \<open>i\<close>, the two sets part the ids below \<open>nc\<close>, an id is in \<^verbatim>\<open>onlineClients_\<close>
  exactly when its client is \<open>ONLINE\<close>, and \<^verbatim>\<open>clientState_\<close> maps every id to the state of
  its client.
\<close>

definition ClientSimulator_consistent :: "uint32_t \<Rightarrow> 'a ClientSimulator \<Rightarrow> bool" where
  "ClientSimulator_consistent nc sim \<longleftrightarrow>
     length (clients sim) = unat nc
   \<and> (\<forall>i. i < nc \<longrightarrow> clientId (clients sim ! unat i) = i)
   \<and> onlineClients sim \<inter> offlineClients sim = {}
   \<and> onlineClients sim \<union> offlineClients sim = {i. i < nc}
   \<and> (\<forall>i. i < nc \<longrightarrow> (i \<in> onlineClients sim \<longleftrightarrow> state (clients sim ! unat i) = ONLINE))
   \<and> (\<forall>i. i < nc \<longrightarrow> map_of (clientState sim) i = Some (state (clients sim ! unat i)))"

section \<open>The rounds of the dispatch loop\<close>

text \<open>
  A finite run of the loop of \<^verbatim>\<open>dispatchPendingMessages\<close>, round by round:
  \<open>dispatchPending_pops h sim g tr sim2 g2\<close> holds when the loop, started on \<open>sim\<close> with
  the generator \<open>g\<close>, makes one round for each entry of \<open>tr\<close> (the message it pops and the
  value \<^verbatim>\<open>rand()\<close> returned for the drop test) and then finds the queue empty, in the state
  \<open>sim2\<close> with the generator \<open>g2\<close>.
\<close>

inductive dispatchPending_pops ::
  "'a handler \<Rightarrow> 'a ClientSimulator \<Rightarrow> rand_src \<Rightarrow> (ClientMessage \<times> nat) list
     \<Rightarrow> 'a ClientSimulator \<Rightarrow> rand_src \<Rightarrow> bool"
  for h :: "'a handler" where
    stop: "messageQueue sim = [] \<Longrightarrow> dispatchPending_pops h sim g [] sim g"
  | round: "messageQueue sim \<noteq> [] \<Longrightarrow>
            dispatchPending_step h sim g = Some (Inr (sim1, g1)) \<Longrightarrow>
            dispatchPending_pops h sim1 g1 tr sim2 g2 \<Longrightarrow>
            dispatchPending_pops h sim g ((hd (messageQueue sim), shd g) # tr) sim2 g2"

section \<open>Example states\<close>

text \<open>
  A gossip node of a five-node network with three buddies per node, built by the calls the
  simulator makes while it generates the buddy lists: node 0 chose 1, 2 and 3, and was
  chosen by 1 and 2.
\<close>

definition example_gossip :: GossipClient where
  "example_gossip =
     snd (addObserver (snd (addObserver
       (snd (addBuddy (snd (addBuddy (snd (addBuddy
          (GossipClient_new 0 3 5 7 ONLINE) 1 ONLINE)) 2 OFFLINE)) 3 ONLINE)) 1)) 2)"

text \<open>A sink that recorded node 1 going offline at 10, node 2 coming online at 20.\<close>

definition example_stats :: SimulatorStatistics where
  "example_stats =
     addStateSwitch 2 20 ONLINE (addStateSwitch 1 10 OFFLINE (SimulatorStatistics_new 0))"

text \<open>A gossip message of the cycle 60, sent by node 1 to node 0.\<close>

definition example_message :: ClientMessage where
  "example_message =
     \<lparr>recipientId = 0, senderId = 1, timestamp = 60, gossipId = 60, messageType = GOSSIP,
      clientChain = {1}\<rparr>"

text \<open>The same node as a heartbeat client.\<close>

definition example_heartbeat :: HeartbeatClient where
  "example_heartbeat =
     snd (addObserver (snd (addObserver
       (snd (addBuddy (snd (addBuddy (snd (addBuddy
          (HeartbeatClient_new 0 3 5 7 ONLINE) 1 ONLINE)) 2 OFFLINE)) 3 ONLINE)) 1)) 2)"

text \<open>A simulator state whose queue holds the example message for the example gossip node.\<close>

definition example_sim :: "unit GossipClient_ext ClientSimulator" where
  "example_sim =
     \<lparr>clients = [example_gossip], onlineClients = {0}, offlineClients = {},
      messageQueue = [example_message], stats = example_stats,
      clientState = [(0, ONLINE)], sleepSchedule = Map.empty\<rparr>"

section \<open>Properties of the base class\<close>

lemma csm_index_present:
  "k \<in> fst ` set m \<Longrightarrow> csm_index m k = (the (map_of m k), m)"
  by (auto simp: csm_index_def map_of_eq_None_iff split: option.splits)

lemma VerifyState_loop_covered:
  "fst ` set bs \<subseteq> fst ` set truth \<Longrightarrow>
   VerifyState_loop bs truth st =
     (truth, st\<lparr>totalBuddyRecords := totalBuddyRecords st + of_nat (length bs),
               totalCorrectBuddyRecords := totalCorrectBuddyRecords st
                 + of_nat (length (filter (\<lambda>e. map_of truth (fst e) = Some (snd e)) bs))\<rparr>)"
proof (induction bs arbitrary: st)
  case Nil
  then show ?case by simp
next
  case (Cons e bs)
  from Cons.prems have k: "fst e \<in> fst ` set truth" and r: "fst ` set bs \<subseteq> fst ` set truth"
    by auto
  from k obtain v where v: "map_of truth (fst e) = Some v"
    by (cases "map_of truth (fst e)") (auto simp: map_of_eq_None_iff)
  show ?case
    using v by (simp add: csm_index_present[OF k] Cons.IH[OF r] incrementTotalBuddyRecords_def
        incrementTotalCorrectBuddyRecords_def add.assoc)
qed

text \<open>
  C10. When \<^verbatim>\<open>addBuddy(b, s)\<close> returns false, which it does exactly when \<open>b\<close> is the node's
  own id or already in \<^verbatim>\<open>buddiesSet_\<close>, the node is unchanged: \<^verbatim>\<open>buddies_\<close>,
  \<^verbatim>\<open>buddiesSet_\<close> and \<^verbatim>\<open>buddyState_\<close> are what they were. Likewise \<^verbatim>\<open>addObserver(o)\<close>
  returning false leaves \<^verbatim>\<open>observers_\<close>, \<^verbatim>\<open>observersSet_\<close> and \<^verbatim>\<open>observerCount_\<close> as they
  were.
\<close>

theorem addBuddy_addObserver_failure_atomic:
  "(fst (addBuddy c b s) \<longleftrightarrow> \<not> (clientId c = b \<or> b \<in> buddiesSet c))
   \<and> (\<not> fst (addBuddy c b s) \<longrightarrow>
        snd (addBuddy c b s) = c
      \<and> buddies (snd (addBuddy c b s)) = buddies c
      \<and> buddiesSet (snd (addBuddy c b s)) = buddiesSet c
      \<and> buddyState (snd (addBuddy c b s)) = buddyState c)
   \<and> (fst (addObserver d ob) \<longleftrightarrow> \<not> (clientId d = ob \<or> ob \<in> observersSet d))
   \<and> (\<not> fst (addObserver d ob) \<longrightarrow>
        snd (addObserver d ob) = d
      \<and> observers (snd (addObserver d ob)) = observers d
      \<and> observersSet (snd (addObserver d ob)) = observersSet d
      \<and> observerCount (snd (addObserver d ob)) = observerCount d)"
  by (simp add: addBuddy_def addObserver_def)

theorem addBuddy_addObserver_failure_atomic_witness:
  "\<not> fst (addBuddy (snd (addBuddy (GossipClient_new 0 2 3 7 ONLINE) 1 ONLINE)) 1 OFFLINE)
   \<and> buddyState (snd (addBuddy (snd (addBuddy (GossipClient_new 0 2 3 7 ONLINE) 1 ONLINE)) 1 OFFLINE))
       = [(1, ONLINE)]
   \<and> buddies (snd (addBuddy (snd (addBuddy (GossipClient_new 0 2 3 7 ONLINE) 1 ONLINE)) 1 OFFLINE))
       = [1]
   \<and> \<not> fst (addObserver (GossipClient_new 0 2 3 7 ONLINE) 0)
   \<and> observers (snd (addObserver (GossipClient_new 0 2 3 7 ONLINE) 0)) = []
   \<and> observerCount (snd (addObserver (GossipClient_new 0 2 3 7 ONLINE) 0)) = 0"
  using addBuddy_addObserver_failure_atomic
          [of "snd (addBuddy (GossipClient_new 0 2 3 7 ONLINE) 1 ONLINE)" 1 OFFLINE
              "GossipClient_new 0 2 3 7 ONLINE" 0]
  by (simp add: addBuddy_def addObserver_def GossipClient_new_def Client_new_def csm_assign_def)

text \<open>
  C9. For a truth map that has an entry for every key of \<^verbatim>\<open>buddyState_\<close>, \<^verbatim>\<open>VerifyState\<close>
  adds the number of entries of \<^verbatim>\<open>buddyState_\<close> to \<^verbatim>\<open>totalBuddyRecords_\<close> and the number of
  entries \<open>(b, believed)\<close> with \<open>truth[b] = believed\<close> to \<^verbatim>\<open>totalCorrectBuddyRecords_\<close>, and
  changes neither the truth map nor anything else of the sink (the node is read only). A
  second call with the same map adds the same two amounts again; on a sink whose two
  counters were zero before the first call both counters are doubled, and while twice the
  number of entries fits in 32 bits the ratio of correct to total records is the same
  after the second call as after the first.
\<close>

theorem VerifyState_counts:
  assumes cov: "fst ` set (buddyState c) \<subseteq> fst ` set truth"
  shows "let n = length (buddyState c);
             k = length (filter (\<lambda>e. map_of truth (fst e) = Some (snd e)) (buddyState c));
             (truth1, st1) = VerifyState c truth st;
             (truth2, st2) = VerifyState c truth1 st1
         in VerifyState c truth st =
              (truth, st\<lparr>totalBuddyRecords := totalBuddyRecords st + of_nat n,
                        totalCorrectBuddyRecords := totalCorrectBuddyRecords st + of_nat k\<rparr>)
          \<and> truth2 = truth
          \<and> st2 = st\<lparr>totalBuddyRecords := totalBuddyRecords st + 2 * of_nat n,
                     totalCorrectBuddyRecords := totalCorrectBuddyRecords st + 2 * of_nat k\<rparr>
          \<and> (totalBuddyRecords st = 0 \<and> totalCorrectBuddyRecords st = 0 \<longrightarrow>
               totalBuddyRecords st2 = 2 * totalBuddyRecords st1
             \<and> totalCorrectBuddyRecords st2 = 2 * totalCorrectBuddyRecords st1
             \<and> (2 * n < 2 ^ 32 \<longrightarrow>
                  real (unat (totalCorrectBuddyRecords st2)) / real (unat (totalBuddyRecords st2))
                  = real (unat (totalCorrectBuddyRecords st1)) / real (unat (totalBuddyRecords st1))))"
proof -
  define n where "n = length (buddyState c)"
  define k where "k = length (filter (\<lambda>e. map_of truth (fst e) = Some (snd e)) (buddyState c))"
  have kn: "k \<le> n" unfolding k_def n_def by simp
  have one: "\<And>s. VerifyState c truth s =
      (truth, s\<lparr>totalBuddyRecords := totalBuddyRecords s + of_nat n,
               totalCorrectBuddyRecords := totalCorrectBuddyRecords s + of_nat k\<rparr>)"
    unfolding VerifyState_def n_def k_def by (rule VerifyState_loop_covered[OF cov])
  have ratio: "real (unat (2 * (of_nat k :: 32 word))) / real (unat (2 * (of_nat n :: 32 word)))
      = real (unat (of_nat k :: 32 word)) / real (unat (of_nat n :: 32 word))" if b: "2 * n < 2 ^ 32"
  proof -
    have "unat (of_nat n :: 32 word) = n" "unat (of_nat k :: 32 word) = k"
      using b kn by (simp_all add: unat_of_nat)
    moreover have "unat (2 * (of_nat n :: 32 word)) = 2 * n" "unat (2 * (of_nat k :: 32 word)) = 2 * k"
      using b kn by (simp_all add: unat_word_ariths unat_of_nat)
    ultimately show ?thesis by simp
  qed
  show ?thesis
    unfolding n_def[symmetric] k_def[symmetric] Let_def
    using ratio by (simp add: one add.assoc)
qed

theorem VerifyState_counts_witness:
  "fst ` set (buddyState ((GossipClient_new 0 2 3 7 ONLINE)\<lparr>buddyState := [(1, ONLINE), (2, OFFLINE)]\<rparr>))
     \<subseteq> fst ` set [(0, ONLINE), (1, ONLINE), (2, ONLINE)]
   \<and> VerifyState ((GossipClient_new 0 2 3 7 ONLINE)\<lparr>buddyState := [(1, ONLINE), (2, OFFLINE)]\<rparr>)
       [(0, ONLINE), (1, ONLINE), (2, ONLINE)] (SimulatorStatistics_new 0)
     = ([(0, ONLINE), (1, ONLINE), (2, ONLINE)],
        (SimulatorStatistics_new 0)\<lparr>totalBuddyRecords := 2, totalCorrectBuddyRecords := 1\<rparr>)"
  using VerifyState_counts
          [of "(GossipClient_new 0 2 3 7 ONLINE)\<lparr>buddyState := [(1, ONLINE), (2, OFFLINE)]\<rparr>"
              "[(0, ONLINE), (1, ONLINE), (2, ONLINE)]" "SimulatorStatistics_new 0"]
  by (simp add: SimulatorStatistics_new_def)

section \<open>Properties of the statistics sink\<close>

lemma getLastState_fst [simp]: "fst (getLastState st b) = lastState st b"
  by (simp add: lastState_def)

lemma getLastStateSwitch_fst [simp]: "fst (getLastStateSwitch st b) = lastStateSwitch st b"
  by (simp add: lastStateSwitch_def)

lemma getLastState_snd [simp]:
  "totalPresenceUpdates (snd (getLastState st b)) = totalPresenceUpdates st"
  "totalConvergenceTime (snd (getLastState st b)) = totalConvergenceTime st"
  "totalMessagesSent (snd (getLastState st b)) = totalMessagesSent st"
  "totalDroppedMessages (snd (getLastState st b)) = totalDroppedMessages st"
  "lastState (snd (getLastState st b)) x = lastState st x"
  "lastStateSwitch (snd (getLastState st b)) x = lastStateSwitch st x"
  by (simp_all add: getLastState_def lastState_def lastStateSwitch_def getLastStateSwitch_def
      split: option.splits)

lemma getLastStateSwitch_snd [simp]:
  "totalPresenceUpdates (snd (getLastStateSwitch st b)) = totalPresenceUpdates st"
  "totalConvergenceTime (snd (getLastStateSwitch st b)) = totalConvergenceTime st"
  "totalMessagesSent (snd (getLastStateSwitch st b)) = totalMessagesSent st"
  "totalDroppedMessages (snd (getLastStateSwitch st b)) = totalDroppedMessages st"
  "lastState (snd (getLastStateSwitch st b)) x = lastState st x"
  "lastStateSwitch (snd (getLastStateSwitch st b)) x = lastStateSwitch st x"
  by (simp_all add: getLastState_def lastState_def lastStateSwitch_def getLastStateSwitch_def
      split: option.splits)

lemma incrementPresenceUpdates_simps [simp]:
  "totalPresenceUpdates (incrementPresenceUpdates st) = totalPresenceUpdates st + 1"
  "totalConvergenceTime (incrementPresenceUpdates st) = totalConvergenceTime st"
  "totalMessagesSent (incrementPresenceUpdates st) = totalMessagesSent st"
  "totalDroppedMessages (incrementPresenceUpdates st) = totalDroppedMessages st"
  "lastState (incrementPresenceUpdates st) x = lastState st x"
  "lastStateSwitch (incrementPresenceUpdates st) x = lastStateSwitch st x"
  by (simp_all add: incrementPresenceUpdates_def getLastState_def lastState_def
      lastStateSwitch_def getLastStateSwitch_def split: option.splits)

lemma addConvergenceTime_simps [simp]:
  "totalPresenceUpdates (addConvergenceTime d st) = totalPresenceUpdates st"
  "totalConvergenceTime (addConvergenceTime d st) = totalConvergenceTime st + d"
  "totalMessagesSent (addConvergenceTime d st) = totalMessagesSent st"
  "totalDroppedMessages (addConvergenceTime d st) = totalDroppedMessages st"
  "lastState (addConvergenceTime d st) x = lastState st x"
  "lastStateSwitch (addConvergenceTime d st) x = lastStateSwitch st x"
  by (simp_all add: addConvergenceTime_def getLastState_def lastState_def
      lastStateSwitch_def getLastStateSwitch_def split: option.splits)

lemma creditUpdate_simps [simp]:
  "totalPresenceUpdates (creditUpdate cid ts st) = totalPresenceUpdates st + 1"
  "totalConvergenceTime (creditUpdate cid ts st) = totalConvergenceTime st + (ts - lastStateSwitch st cid)"
  "totalMessagesSent (creditUpdate cid ts st) = totalMessagesSent st"
  "totalDroppedMessages (creditUpdate cid ts st) = totalDroppedMessages st"
  "lastState (creditUpdate cid ts st) x = lastState st x"
  "lastStateSwitch (creditUpdate cid ts st) x = lastStateSwitch st x"
  by (simp_all add: creditUpdate_def case_prod_beta)

section \<open>Properties of the state table\<close>

lemma csm_assign_map_of [simp]: "map_of (csm_assign k v m) = (map_of m)(k \<mapsto> v)"
  by (simp add: csm_assign_def update_conv')

lemma csm_assign_keys [simp]:
  "k \<in> fst ` set m \<Longrightarrow> map fst (csm_assign k v m) = map fst m"
  by (simp add: csm_assign_def update_keys)

lemma csm_assign_length [simp]:
  "k \<in> fst ` set m \<Longrightarrow> length (csm_assign k v m) = length m"
  using csm_assign_keys[of k m v] by (metis length_map)

lemma csm_index_fst:
  "k \<in> fst ` set m \<Longrightarrow> fst (csm_index m k) = the (map_of m k)"
  by (simp add: csm_index_present)

lemma csm_index_snd [simp]:
  "k \<in> fst ` set m \<Longrightarrow> snd (csm_index m k) = m"
  by (simp add: csm_index_present)

section \<open>Properties of the gossip client\<close>

lemma handleMessage_reset_Cons:
  "handleMessage_reset (b # bs) m c st =
     handleMessage_reset bs m (c\<lparr>buddyState := csm_assign b OFFLINE (buddyState c)\<rparr>)
       (if lastState st b = OFFLINE
        then creditUpdate (senderId m) (timestamp m) (snd (getLastState st b))
        else snd (getLastState st b))"
  by (simp add: case_prod_beta Let_def)

lemma handleMessage_reset_frame:
  "fst (handleMessage_reset bs m c st)
     = c\<lparr>buddyState := buddyState (fst (handleMessage_reset bs m c st))\<rparr>"
proof (induction bs arbitrary: c st)
  case Nil
  show ?case by simp
next
  case (Cons b bs)
  let ?c1 = "c\<lparr>buddyState := csm_assign b OFFLINE (buddyState c)\<rparr>"
  obtain st2 where step: "handleMessage_reset (b # bs) m c st = handleMessage_reset bs m ?c1 st2"
    using handleMessage_reset_Cons by blast
  have "fst (handleMessage_reset bs m ?c1 st2)
          = ?c1\<lparr>buddyState := buddyState (fst (handleMessage_reset bs m ?c1 st2))\<rparr>"
    by (rule Cons.IH)
  also have "\<dots> = c\<lparr>buddyState := buddyState (fst (handleMessage_reset bs m ?c1 st2))\<rparr>"
    by simp
  finally show ?case unfolding step .
qed

lemma handleMessage_reset_keys:
  "set bs \<subseteq> fst ` set (buddyState c) \<Longrightarrow>
   map fst (buddyState (fst (handleMessage_reset bs m c st))) = map fst (buddyState c)"
proof (induction bs arbitrary: c st)
  case Nil
  show ?case by simp
next
  case (Cons b bs)
  let ?c1 = "c\<lparr>buddyState := csm_assign b OFFLINE (buddyState c)\<rparr>"
  obtain st2 where step: "handleMessage_reset (b # bs) m c st = handleMessage_reset bs m ?c1 st2"
    using handleMessage_reset_Cons by blast
  from Cons.prems have b: "b \<in> fst ` set (buddyState c)" and r: "set bs \<subseteq> fst ` set (buddyState c)"
    by auto
  have k: "map fst (buddyState ?c1) = map fst (buddyState c)"
    using b by simp
  then have "fst ` set (buddyState ?c1) = fst ` set (buddyState c)"
    by (metis list.set_map)
  with r have "set bs \<subseteq> fst ` set (buddyState ?c1)" by simp
  from Cons.IH[OF this, of st2] k show ?case
    unfolding step by simp
qed

lemma handleMessage_reset_map_of:
  "map_of (buddyState (fst (handleMessage_reset bs m c st))) x
     = (if x \<in> set bs then Some OFFLINE else map_of (buddyState c) x)"
proof (induction bs arbitrary: c st)
  case Nil
  show ?case by simp
next
  case (Cons b bs)
  show ?case
    unfolding handleMessage_reset_Cons by (simp add: Cons.IH)
qed

lemma handleMessage_reset_reads [simp]:
  "lastState (snd (handleMessage_reset bs m c st)) x = lastState st x"
  "lastStateSwitch (snd (handleMessage_reset bs m c st)) x = lastStateSwitch st x"
  "totalMessagesSent (snd (handleMessage_reset bs m c st)) = totalMessagesSent st"
  "totalDroppedMessages (snd (handleMessage_reset bs m c st)) = totalDroppedMessages st"
  by (induction bs arbitrary: c st; simp add: case_prod_beta Let_def)+

lemma handleMessage_reset_presence:
  "totalPresenceUpdates (snd (handleMessage_reset bs m c st))
     = totalPresenceUpdates st + of_nat (length (filter (\<lambda>b. lastState st b = OFFLINE) bs))"
proof (induction bs arbitrary: c st)
  case Nil
  show ?case by simp
next
  case (Cons b bs)
  show ?case
    unfolding handleMessage_reset_Cons by (simp add: Cons.IH add.assoc)
qed

lemma handleMessage_reset_convergence:
  "totalConvergenceTime (snd (handleMessage_reset bs m c st))
     = totalConvergenceTime st
       + of_nat (length (filter (\<lambda>b. lastState st b = OFFLINE) bs))
         * (timestamp m - lastStateSwitch st (senderId m))"
proof (induction bs arbitrary: c st)
  case Nil
  show ?case by simp
next
  case (Cons b bs)
  show ?case
    unfolding handleMessage_reset_Cons by (simp add: Cons.IH add.assoc distrib_right)
qed

text \<open>
  C1. An online gossip node that receives a message whose \<^verbatim>\<open>gossipId\<close> differs from its
  \<^verbatim>\<open>lastGossipRequest_\<close> starts a new cycle before anything else: \<^verbatim>\<open>handleMessage\<close> goes on
  (cap check, forwarding) from a node \<open>c1\<close> and a sink \<open>st1\<close> in which \<^verbatim>\<open>gossipedNodes_\<close> is
  empty, \<^verbatim>\<open>messagesSent_\<close> is 0, \<^verbatim>\<open>lastGossipRequest_\<close> is the message's \<^verbatim>\<open>gossipId\<close>, the
  table \<^verbatim>\<open>buddyState_\<close> has the keys it had and maps each of them to \<open>OFFLINE\<close>, and, for
  each key whose last recorded state in the sink is \<open>OFFLINE\<close>, \<^verbatim>\<open>totalPresenceUpdates_\<close>
  has grown by one and \<^verbatim>\<open>totalConvergenceTime_\<close> by
  \<open>timestamp - lastStateSwitch(senderId)\<close> (32-bit arithmetic).
\<close>

theorem handleMessage_new_cycle:
  assumes on: "isOnline c" and new: "lastGossipRequest c \<noteq> gossipId m"
  shows "\<exists>c1 st1.
           handleMessage_newCycle c m st = (c1, st1)
         \<and> GossipClient_handleMessage c m q st g = handleMessage_forward c1 m q st1 g
         \<and> gossipedNodes c1 = {} \<and> messagesSent c1 = 0 \<and> lastGossipRequest c1 = gossipId m
         \<and> map fst (buddyState c1) = map fst (buddyState c)
         \<and> (\<forall>b \<in> fst ` set (buddyState c). map_of (buddyState c1) b = Some OFFLINE)
         \<and> totalPresenceUpdates st1
             = totalPresenceUpdates st
               + of_nat (length (filter (\<lambda>b. lastState st b = OFFLINE) (map fst (buddyState c))))
         \<and> totalConvergenceTime st1
             = totalConvergenceTime st
               + of_nat (length (filter (\<lambda>b. lastState st b = OFFLINE) (map fst (buddyState c))))
                 * (timestamp m - lastStateSwitch st (senderId m))"
proof -
  let ?c0 = "c\<lparr>gossipedNodes := {}, messagesSent := 0, lastGossipRequest := gossipId m\<rparr>"
  let ?r = "handleMessage_reset (map fst (buddyState c)) m ?c0 st"
  have nc: "handleMessage_newCycle c m st = ?r"
    using new by (simp add: handleMessage_newCycle_def)
  have frame: "fst ?r = ?c0\<lparr>buddyState := buddyState (fst ?r)\<rparr>"
    by (rule handleMessage_reset_frame)
  have f1: "gossipedNodes (fst ?r) = {}" "messagesSent (fst ?r) = 0"
    "lastGossipRequest (fst ?r) = gossipId m"
    by (subst frame, simp)+
  have keys: "map fst (buddyState (fst ?r)) = map fst (buddyState c)"
    using handleMessage_reset_keys[of "map fst (buddyState c)" ?c0 m st] by simp
  have off: "\<forall>b \<in> fst ` set (buddyState c). map_of (buddyState (fst ?r)) b = Some OFFLINE"
    by (simp add: handleMessage_reset_map_of)
  have hm: "GossipClient_handleMessage c m q st g = handleMessage_forward (fst ?r) m q (snd ?r) g"
    using on by (simp add: GossipClient_handleMessage_def nc case_prod_beta)
  show ?thesis
    apply (rule exI[of _ "fst ?r"], rule exI[of _ "snd ?r"])
    using f1 keys off hm
    by (simp add: nc handleMessage_reset_presence handleMessage_reset_convergence)
qed

lemma example_gossip_simps [simp]:
  "clientId example_gossip = 0" "state example_gossip = ONLINE"
  "buddies example_gossip = [1, 2, 3]" "observers example_gossip = [1, 2]"
  "buddyState example_gossip = [(1, ONLINE), (2, OFFLINE), (3, ONLINE)]"
  "lastGossipRequest example_gossip = 0" "messagesSent example_gossip = 0"
  "gossipedNodes example_gossip = {}"
  by (simp_all add: example_gossip_def addBuddy_def addObserver_def GossipClient_new_def
      Client_new_def csm_assign_def)

lemma example_stats_simps [simp]:
  "lastState example_stats 1 = OFFLINE" "lastState example_stats 2 = ONLINE"
  "lastState example_stats 3 = ONLINE" "lastStateSwitch example_stats 1 = 10"
  "totalPresenceUpdates example_stats = 0" "totalConvergenceTime example_stats = 0"
  by (simp_all add: example_stats_def addStateSwitch_def SimulatorStatistics_new_def
      lastState_def lastStateSwitch_def getLastState_def getLastStateSwitch_def)

lemma example_message_simps [simp]:
  "senderId example_message = 1" "timestamp example_message = 60"
  "gossipId example_message = 60" "clientChain example_message = {1}"
  by (simp_all add: example_message_def)

theorem handleMessage_new_cycle_witness:
  "isOnline example_gossip \<and> lastGossipRequest example_gossip \<noteq> gossipId example_message
   \<and> (\<exists>c1 st1. handleMessage_newCycle example_gossip example_message example_stats = (c1, st1)
        \<and> gossipedNodes c1 = {} \<and> messagesSent c1 = 0 \<and> lastGossipRequest c1 = 60
        \<and> (\<forall>b \<in> {1, 2, 3}. map_of (buddyState c1) b = Some OFFLINE)
        \<and> totalPresenceUpdates st1 = 1 \<and> totalConvergenceTime st1 = 50)"
proof -
  have h1: "isOnline example_gossip" by (simp add: isOnline_def)
  have h2: "lastGossipRequest example_gossip \<noteq> gossipId example_message" by simp
  from handleMessage_new_cycle[OF h1 h2, of example_stats "[]" "sconst 0"]
  show ?thesis using h1 h2 by simp blast
qed

lemma handleMessage_promote_Cons:
  "b \<in> fst ` set (buddyState c) \<Longrightarrow>
   handleMessage_promote (b # bs) m c st =
     handleMessage_promote bs m (c\<lparr>buddyState := csm_assign b ONLINE (buddyState c)\<rparr>)
       (if map_of (buddyState c) b = Some OFFLINE \<and> lastState st b = ONLINE
        then creditUpdate (senderId m) (timestamp m) (snd (getLastState st b))
        else if map_of (buddyState c) b = Some OFFLINE then snd (getLastState st b) else st)"
proof -
  assume b: "b \<in> fst ` set (buddyState c)"
  then obtain v where v: "map_of (buddyState c) b = Some v"
    by (cases "map_of (buddyState c) b") (auto simp: map_of_eq_None_iff)
  show ?thesis
    using v by (cases v) (simp_all add: csm_index_present[OF b] case_prod_beta Let_def)
qed

lemma handleMessage_promote_frame:
  "set bs \<subseteq> fst ` set (buddyState c) \<Longrightarrow>
   fst (handleMessage_promote bs m c st)
     = c\<lparr>buddyState := buddyState (fst (handleMessage_promote bs m c st))\<rparr>
   \<and> map fst (buddyState (fst (handleMessage_promote bs m c st))) = map fst (buddyState c)"
proof (induction bs arbitrary: c st)
  case Nil
  show ?case by simp
next
  case (Cons b bs)
  let ?c1 = "c\<lparr>buddyState := csm_assign b ONLINE (buddyState c)\<rparr>"
  from Cons.prems have b: "b \<in> fst ` set (buddyState c)" and r: "set bs \<subseteq> fst ` set (buddyState c)"
    by auto
  obtain st2 where step: "handleMessage_promote (b # bs) m c st = handleMessage_promote bs m ?c1 st2"
    using handleMessage_promote_Cons[OF b] by blast
  have k: "map fst (buddyState ?c1) = map fst (buddyState c)"
    using b by simp
  then have "fst ` set (buddyState ?c1) = fst ` set (buddyState c)"
    by (metis list.set_map)
  with r have r1: "set bs \<subseteq> fst ` set (buddyState ?c1)" by simp
  note ih = Cons.IH[OF r1, of st2]
  have "fst (handleMessage_promote bs m ?c1 st2)
          = ?c1\<lparr>buddyState := buddyState (fst (handleMessage_promote bs m ?c1 st2))\<rparr>"
    using ih by blast
  also have "\<dots> = c\<lparr>buddyState := buddyState (fst (handleMessage_promote bs m ?c1 st2))\<rparr>"
    by simp
  finally show ?case unfolding step using ih k by simp
qed

lemma handleMessage_promote_map_of:
  "set bs \<subseteq> fst ` set (buddyState c) \<Longrightarrow>
   map_of (buddyState (fst (handleMessage_promote bs m c st))) x
     = (if x \<in> set bs then Some ONLINE else map_of (buddyState c) x)"
proof (induction bs arbitrary: c st)
  case Nil
  show ?case by simp
next
  case (Cons b bs)
  let ?c1 = "c\<lparr>buddyState := csm_assign b ONLINE (buddyState c)\<rparr>"
  from Cons.prems have b: "b \<in> fst ` set (buddyState c)" and r: "set bs \<subseteq> fst ` set (buddyState c)"
    by auto
  have "map fst (buddyState ?c1) = map fst (buddyState c)"
    using b by simp
  then have "fst ` set (buddyState ?c1) = fst ` set (buddyState c)"
    by (metis list.set_map)
  with r have r1: "set bs \<subseteq> fst ` set (buddyState ?c1)" by simp
  show ?case
    unfolding handleMessage_promote_Cons[OF b] by (simp add: Cons.IH[OF r1])
qed


lemma handleMessage_promote_reads [simp]:
  "lastState (snd (handleMessage_promote bs m c st)) x = lastState st x"
  "lastStateSwitch (snd (handleMessage_promote bs m c st)) x = lastStateSwitch st x"
  "totalMessagesSent (snd (handleMessage_promote bs m c st)) = totalMessagesSent st"
  "totalDroppedMessages (snd (handleMessage_promote bs m c st)) = totalDroppedMessages st"
  by (induction bs arbitrary: c st; simp add: case_prod_beta Let_def)+

lemma handleMessage_promote_counts:
  "distinct bs \<Longrightarrow> set bs \<subseteq> fst ` set (buddyState c) \<Longrightarrow>
   totalPresenceUpdates (snd (handleMessage_promote bs m c st))
     = totalPresenceUpdates st
       + of_nat (length (filter (\<lambda>b. map_of (buddyState c) b = Some OFFLINE
                                      \<and> lastState st b = ONLINE) bs))
   \<and> totalConvergenceTime (snd (handleMessage_promote bs m c st))
     = totalConvergenceTime st
       + of_nat (length (filter (\<lambda>b. map_of (buddyState c) b = Some OFFLINE
                                      \<and> lastState st b = ONLINE) bs))
         * (timestamp m - lastStateSwitch st (senderId m))"
proof (induction bs arbitrary: c st)
  case Nil
  show ?case by simp
next
  case (Cons b bs)
  let ?c1 = "c\<lparr>buddyState := csm_assign b ONLINE (buddyState c)\<rparr>"
  let ?P = "\<lambda>c st b. map_of (buddyState c) b = Some OFFLINE \<and> lastState st b = ONLINE"
  from Cons.prems have b: "b \<in> fst ` set (buddyState c)" and r: "set bs \<subseteq> fst ` set (buddyState c)"
    and nb: "b \<notin> set bs" and d: "distinct bs"
    by auto
  have "map fst (buddyState ?c1) = map fst (buddyState c)"
    using b by simp
  then have "fst ` set (buddyState ?c1) = fst ` set (buddyState c)"
    by (metis list.set_map)
  with r have r1: "set bs \<subseteq> fst ` set (buddyState ?c1)" by simp
  have same: "filter (\<lambda>x. x \<noteq> b \<and> (x \<noteq> b \<longrightarrow> Q x)) bs = filter Q bs" for Q
    using nb by (intro filter_cong) auto
  note ih = Cons.IH[OF d r1]
  show ?case
    unfolding handleMessage_promote_Cons[OF b]
    by (simp add: ih same add.assoc distrib_right)
qed

section \<open>The random choices of the gossip client\<close>

lemma unat_of_nat_le: "unat (of_nat k :: 32 word) \<le> k"
  by (simp add: unat_of_nat)

lemma draw_in_range: "xs \<noteq> [] \<Longrightarrow> unat (of_nat (r mod length xs) :: 32 word) < length xs"
  by (rule le_less_trans[OF unat_of_nat_le]) simp

lemma handleMessage_pick_ok:
  assumes "observers c \<noteq> []" and "clientId c \<notin> set (observers c)"
  shows "handleMessage_pick c (of_nat (r mod length (observers c))) g
           = Some (Inr (of_nat (r mod length (observers c)), g))"
proof -
  have i: "unat (of_nat (r mod length (observers c)) :: 32 word) < length (observers c)"
    using assms(1) by (rule draw_in_range)
  then have "observers c ! unat (of_nat (r mod length (observers c)) :: 32 word) \<noteq> clientId c"
    using assms(2) nth_mem by metis
  with i show ?thesis
    by (subst handleMessage_pick.simps) simp
qed

lemma handleMessage_pick_post:
  "handleMessage_pick c r g = Some y \<Longrightarrow>
   (case y of Inl e \<Rightarrow> True
            | Inr p \<Rightarrow> unat (fst p) < length (observers c)
                      \<and> observers c ! unat (fst p) \<noteq> clientId c)"
  by (erule handleMessage_pick.raw_induct[rotated]) (auto split: if_splits)

lemma runTasks_pick1_post:
  "runTasks_pick1 c r g = Some y \<Longrightarrow>
   (case y of Inl e \<Rightarrow> True
            | Inr p \<Rightarrow> unat (fst p) < length (observers c)
                      \<and> observers c ! unat (fst p) \<noteq> clientId c)"
  by (erule runTasks_pick1.raw_induct[rotated]) (auto split: if_splits)

lemma runTasks_pick2_post:
  "runTasks_pick2 c r1 r g = Some y \<Longrightarrow>
   (case y of Inl e \<Rightarrow> True
            | Inr p \<Rightarrow> unat (fst p) < length (buddies c)
                      \<and> buddies c ! unat (fst p) \<noteq> clientId c \<and> fst p \<noteq> r1)"
  by (erule runTasks_pick2.raw_induct[rotated]) (auto split: if_splits)

lemma handleMessage_promote_fields:
  assumes "set bs \<subseteq> fst ` set (buddyState c)"
  shows "messagesSent (fst (handleMessage_promote bs m c st)) = messagesSent c"
    and "gossipedNodes (fst (handleMessage_promote bs m c st)) = gossipedNodes c"
    and "lastGossipRequest (fst (handleMessage_promote bs m c st)) = lastGossipRequest c"
    and "observers (fst (handleMessage_promote bs m c st)) = observers c"
    and "clientId (fst (handleMessage_promote bs m c st)) = clientId c"
    and "state (fst (handleMessage_promote bs m c st)) = state c"
    and "buddies (fst (handleMessage_promote bs m c st)) = buddies c"
  by (subst handleMessage_promote_frame[OF assms, THEN conjunct1], simp)+

lemma handleMessage_newCycle_fields:
  "observers (fst (handleMessage_newCycle c m st)) = observers c"
  "clientId (fst (handleMessage_newCycle c m st)) = clientId c"
  "state (fst (handleMessage_newCycle c m st)) = state c"
  "buddies (fst (handleMessage_newCycle c m st)) = buddies c"
  "map fst (buddyState (fst (handleMessage_newCycle c m st))) = map fst (buddyState c)"
proof -
  let ?c0 = "c\<lparr>gossipedNodes := {}, messagesSent := 0, lastGossipRequest := gossipId m\<rparr>"
  let ?r = "handleMessage_reset (map fst (buddyState c)) m ?c0 st"
  have frame: "fst ?r = ?c0\<lparr>buddyState := buddyState (fst ?r)\<rparr>"
    by (rule handleMessage_reset_frame)
  have f: "observers (fst ?r) = observers c" "clientId (fst ?r) = clientId c"
    "state (fst ?r) = state c" "buddies (fst ?r) = buddies c"
    by (subst frame, simp)+
  have k: "map fst (buddyState (fst ?r)) = map fst (buddyState c)"
    using handleMessage_reset_keys[of "map fst (buddyState c)" ?c0 m st] by simp
  show "observers (fst (handleMessage_newCycle c m st)) = observers c"
    "clientId (fst (handleMessage_newCycle c m st)) = clientId c"
    "state (fst (handleMessage_newCycle c m st)) = state c"
    "buddies (fst (handleMessage_newCycle c m st)) = buddies c"
    "map fst (buddyState (fst (handleMessage_newCycle c m st))) = map fst (buddyState c)"
    using f k by (simp_all add: handleMessage_newCycle_def)
qed

lemma handleMessage_forward_result:
  assumes cap: "messagesSent c < 5" and obs: "observers c \<noteq> []"
    and self: "clientId c \<notin> set (observers c)"
  shows "handleMessage_forward c m q st g =
     Some (Inr ((fst (handleMessage_promote (map fst (buddyState c)) m
                       (c\<lparr>gossipedNodes := gossipedNodes c \<union> clientChain m\<rparr>) st))
                  \<lparr>messagesSent := messagesSent c + 1\<rparr>,
                q @ [createMessage c
                       (observers c ! unat (of_nat (shd g mod length (observers c)) :: 32 word))
                       GOSSIP (timestamp m) (gossipId m) (insert (clientId c) (clientChain m))],
                snd (handleMessage_promote (map fst (buddyState c)) m
                       (c\<lparr>gossipedNodes := gossipedNodes c \<union> clientChain m\<rparr>) st),
                stl g))"
proof -
  let ?c1 = "c\<lparr>gossipedNodes := gossipedNodes c \<union> clientChain m\<rparr>"
  have sub: "set (map fst (buddyState c)) \<subseteq> fst ` set (buddyState ?c1)" by simp
  note f = handleMessage_promote_fields[OF sub, of m st]
  have nc: "\<not> 5 \<le> messagesSent c" using cap by simp
  show ?thesis
    using nc obs
    by (simp add: handleMessage_forward_def handleMessage_pick_ok[OF obs self] f
        case_prod_beta Let_def createMessage_def)
qed

lemma handleMessage_forward_cases:
  assumes "handleMessage_forward c m q st g = Some (Inr (c2, q2, st2, g2))"
  shows "(5 \<le> messagesSent c \<and> c2 = c \<and> q2 = q \<and> st2 = st \<and> g2 = g)
       \<or> (messagesSent c < 5 \<and> messagesSent c2 = messagesSent c + 1 \<and> (\<exists>msg. q2 = q @ [msg]))"
proof (cases "5 \<le> messagesSent c")
  case True
  with assms show ?thesis by (simp add: handleMessage_forward_def)
next
  case False
  let ?c1 = "c\<lparr>gossipedNodes := gossipedNodes c \<union> clientChain m\<rparr>"
  have sub: "set (map fst (buddyState c)) \<subseteq> fst ` set (buddyState ?c1)" by simp
  note f = handleMessage_promote_fields[OF sub, of m]
  from False assms show ?thesis
    by (auto simp: handleMessage_forward_def f case_prod_beta Let_def
        split: if_splits option.splits sum.splits)
qed

lemma runTasks_pick1_ok:
  "unat r < length (observers c) \<Longrightarrow> observers c ! unat r \<noteq> clientId c \<Longrightarrow>
   runTasks_pick1 c r g = Some (Inr (r, g))"
  by (subst runTasks_pick1.simps) simp

lemma runTasks_pick2_ok:
  "unat r < length (buddies c) \<Longrightarrow> buddies c ! unat r \<noteq> clientId c \<Longrightarrow> r \<noteq> r1 \<Longrightarrow>
   runTasks_pick2 c r1 r g = Some (Inr (r, g))"
  by (subst runTasks_pick2.simps) simp

lemma runTasks_pick2_redraw:
  "unat r < length (buddies c) \<Longrightarrow> buddies c ! unat r = clientId c \<or> r = r1 \<Longrightarrow>
   runTasks_pick2 c r1 r g
     = runTasks_pick2 c r1 (of_nat (shd g mod length (buddies c))) (stl g)"
  by (subst runTasks_pick2.simps) simp

text \<open>
  What \<^verbatim>\<open>GossipClient::runTasks\<close> has done whenever it returns on an online node: the
  three assignments, and two messages to the observers at two different indices.
\<close>

lemma GossipClient_runTasks_result:
  assumes on: "isOnline c"
    and ret: "GossipClient_runTasks c ts q g = Some (Inr (c2, q2, g2))"
  shows "c2 = c\<lparr>messagesSent := 2, gossipedNodes := {}, lastGossipRequest := ts\<rparr>
       \<and> (\<exists>(r1::clientId_t) (r2::clientId_t). r1 \<noteq> r2 \<and> unat r1 < length (observers c) \<and> unat r2 < length (observers c)
            \<and> q2 = q @ [createMessage c (observers c ! unat r1) GOSSIP ts ts {clientId c},
                        createMessage c (observers c ! unat r2) GOSSIP ts ts {clientId c}])"
proof -
  let ?c1 = "c\<lparr>messagesSent := 2, gossipedNodes := {}\<rparr>"
  let ?n = "length (observers c)"
  from on ret have ne: "observers c \<noteq> []"
    by (auto simp: GossipClient_runTasks_def Let_def split: if_splits)
  from on ret ne obtain r1 g1 where
    p1: "runTasks_pick1 ?c1 (of_nat (shd g mod ?n)) (stl (stl g)) = Some (Inr (r1, g1))"
    by (auto simp: GossipClient_runTasks_def Let_def split: if_splits option.splits sum.splits)
  from on ret ne p1 obtain r2 g3 where
    p2: "runTasks_pick2 ?c1 r1 (of_nat (shd (stl g) mod ?n)) g1 = Some (Inr (r2, g3))"
    by (auto simp: GossipClient_runTasks_def Let_def split: if_splits option.splits sum.splits)
  from runTasks_pick1_post[OF p1] have i1: "unat r1 < ?n" by simp
  from runTasks_pick2_post[OF p2] have d: "r2 \<noteq> r1" by simp
  from on ret ne p1 p2 have i2: "unat r2 < ?n"
    by (auto simp: GossipClient_runTasks_def Let_def split: if_splits)
  from on ret ne p1 p2 i2 have
    ceq: "c2 = c\<lparr>messagesSent := 2, gossipedNodes := {}, lastGossipRequest := ts\<rparr>" and
    qeq: "q2 = q @ [createMessage c (observers c ! unat r1) GOSSIP ts ts {clientId c},
               createMessage c (observers c ! unat r2) GOSSIP ts ts {clientId c}]"
    by (auto simp: GossipClient_runTasks_def Let_def createMessage_def split: if_splits)
  have "\<exists>(r1::clientId_t) (r2::clientId_t). r1 \<noteq> r2 \<and> unat r1 < length (observers c) \<and> unat r2 < length (observers c)
            \<and> q2 = q @ [createMessage c (observers c ! unat r1) GOSSIP ts ts {clientId c},
                        createMessage c (observers c ! unat r2) GOSSIP ts ts {clientId c}]"
    apply (rule exI[of _ r1], rule exI[of _ r2])
    using i1 i2 d qeq by auto
  with ceq show ?thesis by simp
qed

text \<open>
  C2. Let \<open>c1\<close> and \<open>st1\<close> be the node and the sink after the new-cycle check of
  \<^verbatim>\<open>handleMessage\<close>, on an online gossip node whose observer list is not empty and does not
  hold its own id (what \<^verbatim>\<open>addObserver\<close> guarantees; the choice of the forward's recipient
  is undefined otherwise). If \<open>c1\<close> is under the cap of five forwards, \<^verbatim>\<open>handleMessage\<close>
  returns, and then: \<^verbatim>\<open>gossipedNodes_\<close> has gained every id of the incoming chain; for each
  buddy believed \<open>OFFLINE\<close> in \<open>c1\<close> whose last recorded state in the sink is \<open>ONLINE\<close>,
  \<^verbatim>\<open>totalPresenceUpdates_\<close> has grown by one and \<^verbatim>\<open>totalConvergenceTime_\<close> by
  \<open>timestamp - lastStateSwitch(senderId)\<close>; and every entry of \<^verbatim>\<open>buddyState_\<close> is \<open>ONLINE\<close>,
  the keys being those it had.
\<close>

theorem handleMessage_absorbs_chain:
  assumes on: "isOnline c" and ok: "csm_ok (buddyState c)"
    and obs: "observers c \<noteq> []" and self: "clientId c \<notin> set (observers c)"
    and nc: "handleMessage_newCycle c m st = (c1, st1)"
    and cap: "messagesSent c1 < 5"
  shows "\<exists>c2 q2 st2 g2.
           GossipClient_handleMessage c m q st g = Some (Inr (c2, q2, st2, g2))
         \<and> gossipedNodes c2 = gossipedNodes c1 \<union> clientChain m
         \<and> map fst (buddyState c2) = map fst (buddyState c1)
         \<and> (\<forall>e \<in> set (buddyState c2). snd e = ONLINE)
         \<and> totalPresenceUpdates st2
             = totalPresenceUpdates st1
               + of_nat (length (filter (\<lambda>b. map_of (buddyState c1) b = Some OFFLINE
                                              \<and> lastState st1 b = ONLINE)
                                   (map fst (buddyState c1))))
         \<and> totalConvergenceTime st2
             = totalConvergenceTime st1
               + of_nat (length (filter (\<lambda>b. map_of (buddyState c1) b = Some OFFLINE
                                              \<and> lastState st1 b = ONLINE)
                                   (map fst (buddyState c1))))
                 * (timestamp m - lastStateSwitch st1 (senderId m))"
proof -
  let ?c1 = "c1\<lparr>gossipedNodes := gossipedNodes c1 \<union> clientChain m\<rparr>"
  let ?ks = "map fst (buddyState c1)"
  let ?P = "handleMessage_promote ?ks m ?c1 st1"
  have c1: "c1 = fst (handleMessage_newCycle c m st)" using nc by simp
  have obs1: "observers c1 \<noteq> []" and self1: "clientId c1 \<notin> set (observers c1)"
    and keys1: "?ks = map fst (buddyState c)"
    using obs self by (simp_all add: c1 handleMessage_newCycle_fields)
  have dist: "distinct ?ks" using ok keys1 by (simp add: csm_ok_def)
  have sub: "set ?ks \<subseteq> fst ` set (buddyState ?c1)" by simp
  have hm: "GossipClient_handleMessage c m q st g = handleMessage_forward c1 m q st1 g"
    using on by (simp add: GossipClient_handleMessage_def nc)
  note res = handleMessage_forward_result[OF cap obs1 self1, of m q st1 g]
  note f = handleMessage_promote_fields[OF sub, of m st1]
  have keys2: "map fst (buddyState (fst ?P)) = ?ks"
    using handleMessage_promote_frame[OF sub, of m st1] by simp
  have allon: "\<forall>e \<in> set (buddyState (fst ?P)). snd e = ONLINE"
  proof
    fix e assume e: "e \<in> set (buddyState (fst ?P))"
    have d2: "distinct (map fst (buddyState (fst ?P)))" using dist keys2 by simp
    from e have "map_of (buddyState (fst ?P)) (fst e) = Some (snd e)"
      using map_of_eq_Some_iff[OF d2, of "fst e" "snd e"] by simp
    moreover from e have "fst e \<in> set ?ks"
      using keys2 by (metis image_eqI list.set_map)
    ultimately show "snd e = ONLINE"
      using handleMessage_promote_map_of[OF sub, of m st1 "fst e"] by simp
  qed
  have cnt: "totalPresenceUpdates (snd ?P)
       = totalPresenceUpdates st1
         + of_nat (length (filter (\<lambda>b. map_of (buddyState c1) b = Some OFFLINE
                                        \<and> lastState st1 b = ONLINE) ?ks))
     \<and> totalConvergenceTime (snd ?P)
       = totalConvergenceTime st1
         + of_nat (length (filter (\<lambda>b. map_of (buddyState c1) b = Some OFFLINE
                                        \<and> lastState st1 b = ONLINE) ?ks))
           * (timestamp m - lastStateSwitch st1 (senderId m))"
    using handleMessage_promote_counts[OF dist sub, of m st1] by simp
  show ?thesis
    unfolding hm res
    using f(2) keys2 allon cnt by simp
qed

lemma example_newCycle:
  "messagesSent (fst (handleMessage_newCycle example_gossip example_message example_stats)) = 0"
  "gossipedNodes (fst (handleMessage_newCycle example_gossip example_message example_stats)) = {}"
  "buddyState (fst (handleMessage_newCycle example_gossip example_message example_stats))
     = [(1, OFFLINE), (2, OFFLINE), (3, OFFLINE)]"
  "totalPresenceUpdates (snd (handleMessage_newCycle example_gossip example_message example_stats)) = 1"
  "totalConvergenceTime (snd (handleMessage_newCycle example_gossip example_message example_stats)) = 50"
  "lastState (snd (handleMessage_newCycle example_gossip example_message example_stats)) x
     = lastState example_stats x"
  "lastStateSwitch (snd (handleMessage_newCycle example_gossip example_message example_stats)) x
     = lastStateSwitch example_stats x"
  by (simp_all add: handleMessage_newCycle_def case_prod_beta Let_def csm_assign_def)

theorem handleMessage_absorbs_chain_witness:
  "isOnline example_gossip \<and> csm_ok (buddyState example_gossip)
   \<and> observers example_gossip \<noteq> [] \<and> clientId example_gossip \<notin> set (observers example_gossip)
   \<and> messagesSent (fst (handleMessage_newCycle example_gossip example_message example_stats)) < 5
   \<and> (\<exists>c2 q2 st2 g2.
         GossipClient_handleMessage example_gossip example_message [] example_stats (sconst 0)
           = Some (Inr (c2, q2, st2, g2))
       \<and> gossipedNodes c2 = {1}
       \<and> (\<forall>e \<in> set (buddyState c2). snd e = ONLINE)
       \<and> totalPresenceUpdates st2 = 3 \<and> totalConvergenceTime st2 = 150)"
proof -
  let ?X = "handleMessage_newCycle example_gossip example_message example_stats"
  have h1: "isOnline example_gossip" by (simp add: isOnline_def)
  have h2: "csm_ok (buddyState example_gossip)" by (simp add: csm_ok_def)
  have h3: "observers example_gossip \<noteq> []" by simp
  have h4: "clientId example_gossip \<notin> set (observers example_gossip)" by simp
  have h5: "?X = (fst ?X, snd ?X)" by simp
  have h6: "messagesSent (fst ?X) < 5" by (simp add: example_newCycle)
  from handleMessage_absorbs_chain[OF h1 h2 h3 h4 h5 h6, of "[]" "sconst 0"]
  show ?thesis using h1 h2 h3 h4 h6 by (simp add: example_newCycle) blast
qed

lemma handleMessage_newCycle_messagesSent:
  "messagesSent (fst (handleMessage_newCycle c m st))
     = (if lastGossipRequest c \<noteq> gossipId m then 0 else messagesSent c)"
proof -
  let ?c0 = "c\<lparr>gossipedNodes := {}, messagesSent := 0, lastGossipRequest := gossipId m\<rparr>"
  let ?r = "handleMessage_reset (map fst (buddyState c)) m ?c0 st"
  have frame: "fst ?r = ?c0\<lparr>buddyState := buddyState (fst ?r)\<rparr>"
    by (rule handleMessage_reset_frame)
  have "messagesSent (fst ?r) = 0" by (subst frame) simp
  then show ?thesis by (simp add: handleMessage_newCycle_def)
qed

lemma word_inc_le_5: "(x :: 32 word) < 5 \<Longrightarrow> x + 1 \<le> 5"
  by (rule inc_le)

text \<open>
  C4. Within one gossip cycle \<^verbatim>\<open>messagesSent_\<close> never exceeds 5 after a forward: whenever
  \<^verbatim>\<open>handleMessage\<close> returns, either nothing was enqueued and the node and the sink are
  untouched, or exactly one message was enqueued and \<^verbatim>\<open>messagesSent_\<close> is at most 5
  afterwards; and it does return on an online node whose observer list is not empty and
  does not hold its own id. Whenever \<^verbatim>\<open>runTasks\<close> returns on an online node,
  \<^verbatim>\<open>messagesSent_\<close> is 2. A message of the node's current cycle (its \<^verbatim>\<open>gossipId\<close> is
  \<^verbatim>\<open>lastGossipRequest_\<close>) that arrives when \<^verbatim>\<open>messagesSent_\<close> is 5 or more is dropped:
  \<^verbatim>\<open>handleMessage\<close> returns with the node, the queue, the sink and the generator as they
  were.
\<close>

theorem gossip_fanout_cap:
  "(GossipClient_handleMessage c m q st g = Some (Inr (c2, q2, st2, g2)) \<longrightarrow>
      (q2 = q \<and> c2 = c \<and> st2 = st) \<or> ((\<exists>msg. q2 = q @ [msg]) \<and> messagesSent c2 \<le> 5))
   \<and> (isOnline c \<and> observers c \<noteq> [] \<and> clientId c \<notin> set (observers c) \<longrightarrow>
        (\<exists>r. GossipClient_handleMessage c m q st g = Some (Inr r)))
   \<and> (isOnline c \<and> GossipClient_runTasks c ts q g = Some (Inr (c3, q3, g3)) \<longrightarrow>
        messagesSent c3 = 2)
   \<and> (5 \<le> messagesSent c \<and> gossipId m = lastGossipRequest c \<longrightarrow>
        GossipClient_handleMessage c m q st g = Some (Inr (c, q, st, g)))"
proof (intro conjI impI)
  assume ret: "GossipClient_handleMessage c m q st g = Some (Inr (c2, q2, st2, g2))"
  show "(q2 = q \<and> c2 = c \<and> st2 = st) \<or> ((\<exists>msg. q2 = q @ [msg]) \<and> messagesSent c2 \<le> 5)"
  proof (cases "isOnline c")
    case False
    with ret show ?thesis by (simp add: GossipClient_handleMessage_def)
  next
    case True
    let ?X = "handleMessage_newCycle c m st"
    from True ret have fw: "handleMessage_forward (fst ?X) m q (snd ?X) g = Some (Inr (c2, q2, st2, g2))"
      by (simp add: GossipClient_handleMessage_def case_prod_beta)
    from handleMessage_forward_cases[OF fw] show ?thesis
    proof
      assume a: "5 \<le> messagesSent (fst ?X) \<and> c2 = fst ?X \<and> q2 = q \<and> st2 = snd ?X \<and> g2 = g"
      then have "lastGossipRequest c = gossipId m"
        by (auto simp: handleMessage_newCycle_messagesSent split: if_splits)
      then have "?X = (c, st)" by (simp add: handleMessage_newCycle_def)
      with a show ?thesis by simp
    next
      assume a: "messagesSent (fst ?X) < 5 \<and> messagesSent c2 = messagesSent (fst ?X) + 1
                 \<and> (\<exists>msg. q2 = q @ [msg])"
      then have "messagesSent c2 \<le> 5" using word_inc_le_5 by simp
      with a show ?thesis by simp
    qed
  qed
next
  assume a: "isOnline c \<and> observers c \<noteq> [] \<and> clientId c \<notin> set (observers c)"
  let ?X = "handleMessage_newCycle c m st"
  have hm: "GossipClient_handleMessage c m q st g = handleMessage_forward (fst ?X) m q (snd ?X) g"
    using a by (simp add: GossipClient_handleMessage_def case_prod_beta)
  show "\<exists>r. GossipClient_handleMessage c m q st g = Some (Inr r)"
  proof (cases "messagesSent (fst ?X) < 5")
    case True
    have "observers (fst ?X) \<noteq> []" "clientId (fst ?X) \<notin> set (observers (fst ?X))"
      using a by (simp_all add: handleMessage_newCycle_fields)
    from handleMessage_forward_result[OF True this] show ?thesis
      unfolding hm by blast
  next
    case False
    then have "5 \<le> messagesSent (fst ?X)" by (simp add: not_less)
    then show ?thesis unfolding hm by (simp add: handleMessage_forward_def)
  qed
next
  assume "isOnline c \<and> GossipClient_runTasks c ts q g = Some (Inr (c3, q3, g3))"
  then show "messagesSent c3 = 2"
    using GossipClient_runTasks_result[of c ts q g c3 q3 g3] by simp
next
  assume "5 \<le> messagesSent c \<and> gossipId m = lastGossipRequest c"
  then show "GossipClient_handleMessage c m q st g = Some (Inr (c, q, st, g))"
    by (simp add: GossipClient_handleMessage_def handleMessage_newCycle_def
        handleMessage_forward_def)
qed

lemma example_runTasks:
  "GossipClient_runTasks example_gossip 60 [] (0 ## 1 ## sconst 0)
     = Some (Inr (example_gossip\<lparr>messagesSent := 2, gossipedNodes := {}, lastGossipRequest := 60\<rparr>,
                  [createMessage example_gossip 1 GOSSIP 60 60 {0},
                   createMessage example_gossip 2 GOSSIP 60 60 {0}],
                  sconst 0))"
  by (simp add: GossipClient_runTasks_def isOnline_def Let_def runTasks_pick1_ok
      runTasks_pick2_ok createMessage_def)

text \<open>
  C3. \<^verbatim>\<open>runTasks\<close> does not always address two observers. The second loop tests
  \<^verbatim>\<open>buddies_[randomNode2]\<close> and redraws with \<^verbatim>\<open>rand() % buddies_.size()\<close>, where the first
  loop uses \<^verbatim>\<open>observers_\<close>; the index it leaves is then used on \<^verbatim>\<open>observers_\<close>. On the
  example node (observers 1 and 2, buddies 1, 2 and 3) with the draws 0, 0, 2 the two
  first indices collide, the redraw gives 2, and \<^verbatim>\<open>observers_[2]\<close> is past the end of the
  vector.
\<close>

theorem runTasks_reads_past_observers:
  "isOnline example_gossip \<and> observers example_gossip = [1, 2]
   \<and> buddies example_gossip = [1, 2, 3]
   \<and> GossipClient_runTasks example_gossip 60 [] (0 ## 0 ## 2 ## sconst 0)
       = Some (Inl IndexOutOfRange)"
proof -
  let ?c1 = "example_gossip\<lparr>messagesSent := 2, gossipedNodes := {}\<rparr>"
  have p1: "runTasks_pick1 ?c1 0 (2 ## sconst 0) = Some (Inr (0, 2 ## sconst 0))"
    by (rule runTasks_pick1_ok) simp_all
  have "runTasks_pick2 ?c1 0 0 (2 ## sconst 0) = runTasks_pick2 ?c1 0 2 (sconst 0)"
    by (subst runTasks_pick2_redraw) simp_all
  also have "\<dots> = Some (Inr (2, sconst 0))"
    by (rule runTasks_pick2_ok) simp_all
  finally have p2: "runTasks_pick2 ?c1 0 0 (2 ## sconst 0) = Some (Inr (2, sconst 0))" .
  show ?thesis
    by (simp add: GossipClient_runTasks_def isOnline_def Let_def p1 p2)
qed

theorem gossip_fanout_cap_witness:
  "(\<exists>c2 q2 st2 g2.
      GossipClient_handleMessage example_gossip example_message [] example_stats (sconst 0)
        = Some (Inr (c2, q2, st2, g2))
      \<and> ((q2 = [] \<and> c2 = example_gossip \<and> st2 = example_stats)
         \<or> ((\<exists>msg. q2 = [] @ [msg]) \<and> messagesSent c2 \<le> 5)))
   \<and> isOnline example_gossip
   \<and> observers example_gossip \<noteq> [] \<and> clientId example_gossip \<notin> set (observers example_gossip)
   \<and> (\<exists>c3 q3 g3.
        GossipClient_runTasks example_gossip 60 [] (0 ## 1 ## sconst 0) = Some (Inr (c3, q3, g3))
        \<and> messagesSent c3 = 2)
   \<and> 5 \<le> messagesSent (example_gossip\<lparr>messagesSent := 5, lastGossipRequest := 60\<rparr>)
   \<and> gossipId example_message
       = lastGossipRequest (example_gossip\<lparr>messagesSent := 5, lastGossipRequest := 60\<rparr>)
   \<and> GossipClient_handleMessage (example_gossip\<lparr>messagesSent := 5, lastGossipRequest := 60\<rparr>)
         example_message [] example_stats (sconst 0)
       = Some (Inr (example_gossip\<lparr>messagesSent := 5, lastGossipRequest := 60\<rparr>, [],
                    example_stats, sconst 0))"
proof -
  let ?h = "GossipClient_handleMessage example_gossip example_message [] example_stats (sconst 0)"
  let ?c5 = "example_gossip\<lparr>messagesSent := 5, lastGossipRequest := 60\<rparr>"
  let ?c3 = "example_gossip\<lparr>messagesSent := 2, gossipedNodes := {}, lastGossipRequest := 60\<rparr>"
  let ?q3 = "[createMessage example_gossip 1 GOSSIP 60 60 {0},
              createMessage example_gossip 2 GOSSIP 60 60 {0}]"
  have on: "isOnline example_gossip" by (simp add: isOnline_def)
  have wf: "observers example_gossip \<noteq> []" "clientId example_gossip \<notin> set (observers example_gossip)"
    by simp_all
  have "\<exists>r. ?h = Some (Inr r)"
    using gossip_fanout_cap[where c = example_gossip and m = example_message and q = "[]"
        and st = example_stats and g = "sconst 0", THEN conjunct2, THEN conjunct1] on wf
    by blast
  then obtain c2 q2 st2 g2 where r: "?h = Some (Inr (c2, q2, st2, g2))"
    using prod_cases4 by metis
  have A: "(q2 = [] \<and> c2 = example_gossip \<and> st2 = example_stats)
         \<or> ((\<exists>msg. q2 = [] @ [msg]) \<and> messagesSent c2 \<le> 5)"
    using gossip_fanout_cap[where c = example_gossip and m = example_message and q = "[]"
        and st = example_stats and g = "sconst 0" and ?c2.0 = c2 and ?q2.0 = q2
        and ?st2.0 = st2 and ?g2.0 = g2, THEN conjunct1] r
    by blast
  have B: "messagesSent ?c3 = 2"
    using gossip_fanout_cap[where c = example_gossip and ts = 60 and q = "[]"
        and g = "0 ## 1 ## sconst 0" and ?c3.0 = ?c3 and ?q3.0 = ?q3 and ?g3.0 = "sconst 0",
        THEN conjunct2, THEN conjunct2, THEN conjunct1] on example_runTasks
    by blast
  have h5: "5 \<le> messagesSent ?c5" "gossipId example_message = lastGossipRequest ?c5"
    by simp_all
  have C: "GossipClient_handleMessage ?c5 example_message [] example_stats (sconst 0)
       = Some (Inr (?c5, [], example_stats, sconst 0))"
    using gossip_fanout_cap[where c = ?c5 and m = example_message and q = "[]"
        and st = example_stats and g = "sconst 0",
        THEN conjunct2, THEN conjunct2, THEN conjunct2] h5
    by blast
  have R: "\<exists>c3 q3 g3.
        GossipClient_runTasks example_gossip 60 [] (0 ## 1 ## sconst 0) = Some (Inr (c3, q3, g3))
        \<and> messagesSent c3 = 2"
    using example_runTasks B by blast
  have H: "\<exists>c2 q2 st2 g2. ?h = Some (Inr (c2, q2, st2, g2))
      \<and> ((q2 = [] \<and> c2 = example_gossip \<and> st2 = example_stats)
         \<or> ((\<exists>msg. q2 = [] @ [msg]) \<and> messagesSent c2 \<le> 5))"
    using r A by blast
  from H on wf R h5 C show ?thesis by (intro conjI)
qed

section \<open>Properties of the heartbeat client\<close>

lemma runTasks_sweep_Cons:
  assumes b: "b \<in> fst ` set (buddyState c)"
  shows "runTasks_sweep (b # bs) ts c st =
     (if runTasks_stale c ts b
      then runTasks_sweep bs ts (c\<lparr>buddyState := csm_assign b OFFLINE (buddyState c)\<rparr>)
             (addConvergenceTime (ts - lastStateSwitch st b)
                (snd (getLastState (snd (getLastStateSwitch (incrementPresenceUpdates st) b)) b)))
      else runTasks_sweep bs ts c st)"
proof -
  from b obtain v where v: "map_of (buddyState c) b = Some v"
    by (cases "map_of (buddyState c) b") (auto simp: map_of_eq_None_iff)
  show ?thesis
    using v
    by (cases v) (simp_all add: csm_index_present[OF b] case_prod_beta Let_def runTasks_stale_def)
qed


lemma runTasks_sweep_frame:
  "set bs \<subseteq> fst ` set (buddyState c) \<Longrightarrow>
   fst (runTasks_sweep bs ts c st) = c\<lparr>buddyState := buddyState (fst (runTasks_sweep bs ts c st))\<rparr>
   \<and> map fst (buddyState (fst (runTasks_sweep bs ts c st))) = map fst (buddyState c)"
proof (induction bs arbitrary: c st)
  case Nil
  show ?case by simp
next
  case (Cons b bs)
  let ?c1 = "c\<lparr>buddyState := csm_assign b OFFLINE (buddyState c)\<rparr>"
  from Cons.prems have b: "b \<in> fst ` set (buddyState c)" and r: "set bs \<subseteq> fst ` set (buddyState c)"
    by auto
  have k: "map fst (buddyState ?c1) = map fst (buddyState c)"
    using b by simp
  then have "fst ` set (buddyState ?c1) = fst ` set (buddyState c)"
    by (metis list.set_map)
  with r have r1: "set bs \<subseteq> fst ` set (buddyState ?c1)" by simp
  show ?case
  proof (cases "runTasks_stale c ts b")
    case True
    then obtain st2 where step: "runTasks_sweep (b # bs) ts c st = runTasks_sweep bs ts ?c1 st2"
      using runTasks_sweep_Cons[OF b] by simp
    note ih = Cons.IH[OF r1, of st2]
    have "fst (runTasks_sweep bs ts ?c1 st2)
            = ?c1\<lparr>buddyState := buddyState (fst (runTasks_sweep bs ts ?c1 st2))\<rparr>"
      using ih by blast
    also have "\<dots> = c\<lparr>buddyState := buddyState (fst (runTasks_sweep bs ts ?c1 st2))\<rparr>"
      by simp
    finally show ?thesis unfolding step using ih k by simp
  next
    case False
    then have step: "runTasks_sweep (b # bs) ts c st = runTasks_sweep bs ts c st"
      using runTasks_sweep_Cons[OF b] by simp
    show ?thesis unfolding step by (rule Cons.IH[OF r])
  qed
qed

lemma runTasks_sweep_fields:
  assumes "set bs \<subseteq> fst ` set (buddyState c)"
  shows "observers (fst (runTasks_sweep bs ts c st)) = observers c"
    and "lastBuddyUpdate (fst (runTasks_sweep bs ts c st)) = lastBuddyUpdate c"
    and "lastMessageTimestamp (fst (runTasks_sweep bs ts c st)) = lastMessageTimestamp c"
    and "nextObserver (fst (runTasks_sweep bs ts c st)) = nextObserver c"
    and "clientId (fst (runTasks_sweep bs ts c st)) = clientId c"
    and "state (fst (runTasks_sweep bs ts c st)) = state c"
    and "buddies (fst (runTasks_sweep bs ts c st)) = buddies c"
  by (subst runTasks_sweep_frame[OF assms, THEN conjunct1], simp)+

lemma runTasks_sweep_reads [simp]:
  "set bs \<subseteq> fst ` set (buddyState c) \<Longrightarrow>
   lastStateSwitch (snd (runTasks_sweep bs ts c st)) x = lastStateSwitch st x"
proof (induction bs arbitrary: c st)
  case Nil
  show ?case by simp
next
  case (Cons b bs)
  let ?c1 = "c\<lparr>buddyState := csm_assign b OFFLINE (buddyState c)\<rparr>"
  from Cons.prems have b: "b \<in> fst ` set (buddyState c)" and r: "set bs \<subseteq> fst ` set (buddyState c)"
    by auto
  have "map fst (buddyState ?c1) = map fst (buddyState c)"
    using b by simp
  then have "fst ` set (buddyState ?c1) = fst ` set (buddyState c)"
    by (metis list.set_map)
  with r have r1: "set bs \<subseteq> fst ` set (buddyState ?c1)" by simp
  show ?case
    unfolding runTasks_sweep_Cons[OF b] by (simp add: Cons.IH[OF r] Cons.IH[OF r1])
qed


lemma runTasks_sweep_frame_gen:
  "fst (runTasks_sweep bs ts c st) = c\<lparr>buddyState := buddyState (fst (runTasks_sweep bs ts c st))\<rparr>"
proof (induction bs arbitrary: c st)
  case Nil
  show ?case by simp
next
  case (Cons b bs)
  define c0 where "c0 = c\<lparr>buddyState := snd (csm_index (buddyState c) b)\<rparr>"
  define c1 where "c1 = c0\<lparr>buddyState := csm_assign b OFFLINE (buddyState c0)\<rparr>"
  have "\<exists>c2 st2. runTasks_sweep (b # bs) ts c st = runTasks_sweep bs ts c2 st2
                 \<and> (c2 = c0 \<or> c2 = c1)"
    by (auto simp: case_prod_beta Let_def c0_def c1_def)
  then obtain c2 st2 where step: "runTasks_sweep (b # bs) ts c st = runTasks_sweep bs ts c2 st2"
    and c2: "c2 = c0 \<or> c2 = c1"
    by blast
  have "fst (runTasks_sweep bs ts c2 st2)
          = c2\<lparr>buddyState := buddyState (fst (runTasks_sweep bs ts c2 st2))\<rparr>"
    by (rule Cons.IH)
  also have "\<dots> = c\<lparr>buddyState := buddyState (fst (runTasks_sweep bs ts c2 st2))\<rparr>"
    using c2 by (auto simp: c0_def c1_def)
  finally show ?case unfolding step .
qed

lemma runTasks_sweep_fields_gen:
  "observers (fst (runTasks_sweep bs ts c st)) = observers c"
  "lastMessageTimestamp (fst (runTasks_sweep bs ts c st)) = lastMessageTimestamp c"
  "nextObserver (fst (runTasks_sweep bs ts c st)) = nextObserver c"
  "clientId (fst (runTasks_sweep bs ts c st)) = clientId c"
  by (subst runTasks_sweep_frame_gen, simp)+

text \<open>What a call of \<^verbatim>\<open>HeartbeatClient::runTasks\<close> emits, on any node whose cursor is in range.\<close>

lemma HeartbeatClient_runTasks_emission:
  assumes inr: "unat (nextObserver c) < length (observers c)"
  shows "\<exists>c2 q2 st2.
           HeartbeatClient_runTasks c ts q st = Inr (c2, q2, st2)
         \<and> observers c2 = observers c \<and> clientId c2 = clientId c
         \<and> unat (nextObserver c2) < length (observers c2)
         \<and> (if isOnline c \<and> 11 < ts - lastMessageTimestamp c
            then q2 = q @ [createMessage c (observers c ! unat (nextObserver c)) HEARTBEAT ts 0 {}]
               \<and> lastMessageTimestamp c2 = ts
               \<and> nextObserver c2 = (if length (observers c) \<le> unat (nextObserver c + 1) then 0
                                    else nextObserver c + 1)
            else q2 = q \<and> lastMessageTimestamp c2 = lastMessageTimestamp c
               \<and> nextObserver c2 = nextObserver c)"
proof -
  have pos: "observers c \<noteq> []" using inr by auto
  show ?thesis
    using inr pos
    by (simp add: HeartbeatClient_runTasks_def runTasks_emit_def case_prod_beta Let_def
        runTasks_sweep_fields_gen not_le)
qed

lemma heartbeat_gap:
  fixes ts l :: uint32_t
  assumes "11 < ts - l" and "unat l \<le> unat ts"
  shows "unat l + 12 \<le> unat ts"
proof -
  have "l \<le> ts" using assms(2) by (simp add: word_le_nat_alt)
  then have "unat (ts - l) = unat ts - unat l" by (rule unat_sub)
  moreover have "11 < unat (ts - l)" using assms(1) by (simp add: word_less_nat_alt)
  ultimately show ?thesis by simp
qed

lemma HeartbeatClient_handleMessage_fields:
  "observers (fst (HeartbeatClient_handleMessage c m st)) = observers c"
  "lastMessageTimestamp (fst (HeartbeatClient_handleMessage c m st)) = lastMessageTimestamp c"
  "nextObserver (fst (HeartbeatClient_handleMessage c m st)) = nextObserver c"
  "clientId (fst (HeartbeatClient_handleMessage c m st)) = clientId c"
  by (simp_all add: HeartbeatClient_handleMessage_def case_prod_beta Let_def)

lemma switchState_fields:
  "observers (snd (switchState c ts)) = observers c"
  "lastMessageTimestamp (snd (switchState c ts)) = lastMessageTimestamp c"
  "nextObserver (snd (switchState c ts)) = nextObserver c"
  "clientId (snd (switchState c ts)) = clientId c"
  by (simp_all add: switchState_def Let_def)

lemma HeartbeatClient_calls_emissions:
  "unat (nextObserver c) < length (observers c) \<Longrightarrow>
   sorted_wrt (<) (map unat (runTimes cs)) \<Longrightarrow>
   (\<forall>t \<in> set (runTimes cs). unat (lastMessageTimestamp c) \<le> unat t) \<Longrightarrow>
   \<exists>c2 es st2.
     HeartbeatClient_calls cs c q st = Inr (c2, q @ es, st2)
   \<and> (\<forall>e \<in> set es. messageType e = HEARTBEAT \<and> senderId e = clientId c
                    \<and> unat (lastMessageTimestamp c) + 12 \<le> unat (timestamp e))
   \<and> sorted_wrt (\<lambda>a b. unat (timestamp a) + 12 \<le> unat (timestamp b)) es"
proof (induction cs arbitrary: c q st rule: runTimes.induct)
  case 1
  show ?case by simp
next
  case (2 ts rest)
  from HeartbeatClient_runTasks_emission[OF "2.prems"(1), of ts q st]
  obtain c2 q2 st2 where run: "HeartbeatClient_runTasks c ts q st = Inr (c2, q2, st2)"
    and obs: "observers c2 = observers c" and cid: "clientId c2 = clientId c"
    and inr2: "unat (nextObserver c2) < length (observers c2)"
    and em: "if isOnline c \<and> 11 < ts - lastMessageTimestamp c
            then q2 = q @ [createMessage c (observers c ! unat (nextObserver c)) HEARTBEAT ts 0 {}]
               \<and> lastMessageTimestamp c2 = ts
               \<and> nextObserver c2 = (if length (observers c) \<le> unat (nextObserver c + 1) then 0
                                    else nextObserver c + 1)
            else q2 = q \<and> lastMessageTimestamp c2 = lastMessageTimestamp c
               \<and> nextObserver c2 = nextObserver c"
    by blast
  from "2.prems"(2) have srt: "sorted_wrt (<) (map unat (runTimes rest))"
    and later: "\<forall>t \<in> set (runTimes rest). unat ts < unat t"
    by auto
  from "2.prems"(3) have now: "unat (lastMessageTimestamp c) \<le> unat ts"
    and bound: "\<forall>t \<in> set (runTimes rest). unat (lastMessageTimestamp c) \<le> unat t"
    by auto
  show ?case
  proof (cases "isOnline c \<and> 11 < ts - lastMessageTimestamp c")
    case True
    let ?e = "createMessage c (observers c ! unat (nextObserver c)) HEARTBEAT ts 0 {}"
    from True em have q2: "q2 = q @ [?e]" and l2: "lastMessageTimestamp c2 = ts" by simp_all
    have b2: "\<forall>t \<in> set (runTimes rest). unat (lastMessageTimestamp c2) \<le> unat t"
      using later l2 by auto
    from "2.IH"[OF inr2 srt b2, of q2 st2]
    obtain c3 es st3 where r: "HeartbeatClient_calls rest c2 q2 st2 = Inr (c3, q2 @ es, st3)"
      and p: "\<forall>e \<in> set es. messageType e = HEARTBEAT \<and> senderId e = clientId c2
                    \<and> unat (lastMessageTimestamp c2) + 12 \<le> unat (timestamp e)"
      and s: "sorted_wrt (\<lambda>a b. unat (timestamp a) + 12 \<le> unat (timestamp b)) es"
      by blast
    have gap: "unat (lastMessageTimestamp c) + 12 \<le> unat ts"
      using True now by (intro heartbeat_gap) simp_all
    have "HeartbeatClient_calls (RunTasks ts # rest) c q st = Inr (c3, q @ (?e # es), st3)"
      using run r q2 by simp
    moreover have "\<forall>e \<in> set (?e # es). messageType e = HEARTBEAT \<and> senderId e = clientId c
                    \<and> unat (lastMessageTimestamp c) + 12 \<le> unat (timestamp e)"
      using p gap cid l2 by (auto simp: createMessage_def)
    moreover have "sorted_wrt (\<lambda>a b. unat (timestamp a) + 12 \<le> unat (timestamp b)) (?e # es)"
      using p s l2 by (auto simp: createMessage_def)
    ultimately show ?thesis by blast
  next
    case False
    with em have q2: "q2 = q" and l2: "lastMessageTimestamp c2 = lastMessageTimestamp c"
      by auto
    have b2: "\<forall>t \<in> set (runTimes rest). unat (lastMessageTimestamp c2) \<le> unat t"
      using bound l2 by simp
    from "2.IH"[OF inr2 srt b2, of q2 st2] run q2 l2 cid show ?thesis
      by simp
  qed
next
  case (3 m rest)
  let ?c1 = "fst (HeartbeatClient_handleMessage c m st)"
  have "unat (nextObserver ?c1) < length (observers ?c1)"
    using "3.prems"(1) by (simp add: HeartbeatClient_handleMessage_fields)
  moreover have "sorted_wrt (<) (map unat (runTimes rest))" using "3.prems"(2) by simp
  moreover have "\<forall>t \<in> set (runTimes rest). unat (lastMessageTimestamp ?c1) \<le> unat t"
    using "3.prems"(3) by (simp add: HeartbeatClient_handleMessage_fields)
  ultimately show ?case
    using "3.IH"[of ?c1 q "snd (HeartbeatClient_handleMessage c m st)"]
    by (simp add: case_prod_beta HeartbeatClient_handleMessage_fields)
next
  case (4 ts rest)
  let ?c1 = "snd (switchState c ts)"
  have "unat (nextObserver ?c1) < length (observers ?c1)"
    using "4.prems"(1) by (simp add: switchState_fields)
  moreover have "sorted_wrt (<) (map unat (runTimes rest))" using "4.prems"(2) by simp
  moreover have "\<forall>t \<in> set (runTimes rest). unat (lastMessageTimestamp ?c1) \<le> unat t"
    using "4.prems"(3) by (simp add: switchState_fields)
  ultimately show ?case
    using "4.IH"[of ?c1 q st] by (simp add: switchState_fields)
next
  case (5 st1 rest)
  then show ?case by simp
qed

lemma example_heartbeat_simps [simp]:
  "clientId example_heartbeat = 0" "state example_heartbeat = ONLINE"
  "buddies example_heartbeat = [1, 2, 3]" "observers example_heartbeat = [1, 2]"
  "buddyState example_heartbeat = [(1, ONLINE), (2, OFFLINE), (3, ONLINE)]"
  "nextObserver example_heartbeat = 0" "lastMessageTimestamp example_heartbeat = 0"
  "lastBuddyUpdate example_heartbeat = Map.empty"
  by (simp_all add: example_heartbeat_def addBuddy_def addObserver_def HeartbeatClient_new_def
      Client_new_def csm_assign_def)

lemma example_stats_more [simp]:
  "lastStateSwitch example_stats 3 = 0" "lastStateSwitch example_stats 2 = 20"
  by (simp_all add: example_stats_def addStateSwitch_def SimulatorStatistics_new_def
      lastStateSwitch_def getLastStateSwitch_def)



text \<open>
  The emission on a node that has an observer. On an online heartbeat node whose cursor \<^verbatim>\<open>nextObserver_\<close> is in range, \<^verbatim>\<open>runTasks\<close>
  returns and has enqueued a message exactly when
  \<open>timestamp - lastMessageTimestamp > 11\<close> (32-bit arithmetic): one \<open>HEARTBEAT\<close> to
  \<^verbatim>\<open>observers_[nextObserver_]\<close> with an empty chain and \<^verbatim>\<open>gossipId\<close> 0; then
  \<^verbatim>\<open>lastMessageTimestamp_\<close> is the timestamp and the cursor has advanced by one, back to 0
  at \<open>|observers|\<close>; otherwise the queue, the last emission time and the cursor are as
  they were. Consequently, in any run of a node in which the \<^verbatim>\<open>runTasks\<close> timestamps
  increase strictly (the driver's \<^verbatim>\<open>timeElapsed++\<close>) and none is before the node's
  \<^verbatim>\<open>lastMessageTimestamp_\<close> (0 at construction), every call returns, the messages the node
  has enqueued are heartbeats of its own, and any two of them are at least 12 seconds
  apart.
\<close>

lemma heartbeat_emission_in_range:
  "(isOnline c \<and> unat (nextObserver c) < length (observers c) \<longrightarrow>
      (\<exists>c2 q2 st2.
          HeartbeatClient_runTasks c ts q st = Inr (c2, q2, st2)
        \<and> (if 11 < ts - lastMessageTimestamp c
           then q2 = q @ [\<lparr>recipientId = observers c ! unat (nextObserver c),
                            senderId = clientId c, timestamp = ts, gossipId = 0,
                            messageType = HEARTBEAT, clientChain = {}\<rparr>]
              \<and> lastMessageTimestamp c2 = ts
              \<and> nextObserver c2 = (if length (observers c) \<le> unat (nextObserver c + 1) then 0
                                   else nextObserver c + 1)
           else q2 = q \<and> lastMessageTimestamp c2 = lastMessageTimestamp c
              \<and> nextObserver c2 = nextObserver c)))
   \<and> (unat (nextObserver c) < length (observers c)
      \<and> sorted_wrt (<) (map unat (runTimes cs))
      \<and> (\<forall>t \<in> set (runTimes cs). unat (lastMessageTimestamp c) \<le> unat t) \<longrightarrow>
      (\<exists>c2 es st2.
          HeartbeatClient_calls cs c q st = Inr (c2, q @ es, st2)
        \<and> (\<forall>e \<in> set es. messageType e = HEARTBEAT \<and> senderId e = clientId c)
        \<and> sorted_wrt (\<lambda>a b. unat (timestamp a) + 12 \<le> unat (timestamp b)) es))"
proof (intro conjI impI)
  assume a: "isOnline c \<and> unat (nextObserver c) < length (observers c)"
  from HeartbeatClient_runTasks_emission[of c ts q st] a
  obtain c2 q2 st2 where r: "HeartbeatClient_runTasks c ts q st = Inr (c2, q2, st2)"
    and em: "if 11 < ts - lastMessageTimestamp c
            then q2 = q @ [createMessage c (observers c ! unat (nextObserver c)) HEARTBEAT ts 0 {}]
               \<and> lastMessageTimestamp c2 = ts
               \<and> nextObserver c2 = (if length (observers c) \<le> unat (nextObserver c + 1) then 0
                                    else nextObserver c + 1)
            else q2 = q \<and> lastMessageTimestamp c2 = lastMessageTimestamp c
               \<and> nextObserver c2 = nextObserver c"
    by auto
  show "\<exists>c2 q2 st2.
          HeartbeatClient_runTasks c ts q st = Inr (c2, q2, st2)
        \<and> (if 11 < ts - lastMessageTimestamp c
           then q2 = q @ [\<lparr>recipientId = observers c ! unat (nextObserver c),
                            senderId = clientId c, timestamp = ts, gossipId = 0,
                            messageType = HEARTBEAT, clientChain = {}\<rparr>]
              \<and> lastMessageTimestamp c2 = ts
              \<and> nextObserver c2 = (if length (observers c) \<le> unat (nextObserver c + 1) then 0
                                   else nextObserver c + 1)
           else q2 = q \<and> lastMessageTimestamp c2 = lastMessageTimestamp c
              \<and> nextObserver c2 = nextObserver c)"
    apply (rule exI[of _ c2], rule exI[of _ q2], rule exI[of _ st2])
    using r em by (simp add: createMessage_def)
next
  assume a: "unat (nextObserver c) < length (observers c)
      \<and> sorted_wrt (<) (map unat (runTimes cs))
      \<and> (\<forall>t \<in> set (runTimes cs). unat (lastMessageTimestamp c) \<le> unat t)"
  then have a1: "unat (nextObserver c) < length (observers c)"
    and a2: "sorted_wrt (<) (map unat (runTimes cs))"
    and a3: "\<forall>t \<in> set (runTimes cs). unat (lastMessageTimestamp c) \<le> unat t"
    by simp_all
  from HeartbeatClient_calls_emissions[OF a1 a2 a3, of q st]
  show "\<exists>c2 es st2.
          HeartbeatClient_calls cs c q st = Inr (c2, q @ es, st2)
        \<and> (\<forall>e \<in> set es. messageType e = HEARTBEAT \<and> senderId e = clientId c)
        \<and> sorted_wrt (\<lambda>a b. unat (timestamp a) + 12 \<le> unat (timestamp b)) es"
    by blast
qed

lemma example_calls:
  "\<exists>c2 st2. HeartbeatClient_calls [RunTasks 12, RunTasks 13, RunTasks 24]
               example_heartbeat [] example_stats
     = Inr (c2, [createMessage example_heartbeat 1 HEARTBEAT 12 0 {},
                 createMessage example_heartbeat 2 HEARTBEAT 24 0 {}], st2)"
  by (simp add: HeartbeatClient_runTasks_def runTasks_emit_def isOnline_def Let_def
      csm_index_def createMessage_def case_prod_beta)

lemma heartbeat_emission_in_range_example:
  "isOnline example_heartbeat
   \<and> unat (nextObserver example_heartbeat) < length (observers example_heartbeat)
   \<and> (\<exists>c2 st2.
        HeartbeatClient_runTasks example_heartbeat 12 [] example_stats
          = Inr (c2, [\<lparr>recipientId = 1, senderId = 0, timestamp = 12, gossipId = 0,
                        messageType = HEARTBEAT, clientChain = {}\<rparr>], st2)
        \<and> lastMessageTimestamp c2 = 12 \<and> nextObserver c2 = 1)
   \<and> sorted_wrt (<) (map unat (runTimes [RunTasks 12, RunTasks 13, RunTasks 24]))
   \<and> runTimes [RunTasks 12, RunTasks 13, RunTasks 24] = [12, 13, 24]
   \<and> unat (lastMessageTimestamp example_heartbeat) = 0
   \<and> (\<exists>c2 es st2.
        HeartbeatClient_calls [RunTasks 12, RunTasks 13, RunTasks 24]
          example_heartbeat [] example_stats = Inr (c2, es, st2)
        \<and> map timestamp es = [12, 24]
        \<and> sorted_wrt (\<lambda>a b. unat (timestamp a) + 12 \<le> unat (timestamp b)) es)"
proof -
  let ?cs = "[RunTasks 12, RunTasks 13, RunTasks 24]"
  have h1: "isOnline example_heartbeat" by (simp add: isOnline_def)
  have h2: "unat (nextObserver example_heartbeat) < length (observers example_heartbeat)" by simp
  have h3: "sorted_wrt (<) (map unat (runTimes ?cs))" by simp
  have h4: "\<forall>t \<in> set (runTimes ?cs). unat (lastMessageTimestamp example_heartbeat) \<le> unat t"
    by simp
  note T = heartbeat_emission_in_range[where c = example_heartbeat and q = "[]" and st = example_stats]
  from T[where ts = 12, THEN conjunct1] h1 h2
  have A: "\<exists>c2 st2.
        HeartbeatClient_runTasks example_heartbeat 12 [] example_stats
          = Inr (c2, [\<lparr>recipientId = 1, senderId = 0, timestamp = 12, gossipId = 0,
                        messageType = HEARTBEAT, clientChain = {}\<rparr>], st2)
        \<and> lastMessageTimestamp c2 = 12 \<and> nextObserver c2 = 1"
    by simp
  from T[where cs = ?cs, THEN conjunct2] h2 h3 h4
  obtain c2 es st2 where r: "HeartbeatClient_calls ?cs example_heartbeat [] example_stats
        = Inr (c2, [] @ es, st2)"
    and s: "sorted_wrt (\<lambda>a b. unat (timestamp a) + 12 \<le> unat (timestamp b)) es"
    by blast
  from example_calls r have "map timestamp es = [12, 24]"
    by (auto simp: createMessage_def)
  with r s have B: "\<exists>c2 es st2.
        HeartbeatClient_calls ?cs example_heartbeat [] example_stats = Inr (c2, es, st2)
        \<and> map timestamp es = [12, 24]
        \<and> sorted_wrt (\<lambda>a b. unat (timestamp a) + 12 \<le> unat (timestamp b)) es"
    by auto
  have h5: "runTimes ?cs = [12, 13, 24]" "unat (lastMessageTimestamp example_heartbeat) = 0"
    by simp_all
  from h1 h2 A h3 h5 B show ?thesis by (intro conjI)
qed

section \<open>Properties of the simulator core\<close>

lemma unat_of_nat_32: "i < 2 ^ 32 \<Longrightarrow> unat (of_nat i :: 32 word) = i"
  by (simp add: unat_of_nat)

lemma of_nat_eq_32: "i < 2 ^ 32 \<Longrightarrow> k < 2 ^ 32 \<Longrightarrow> (of_nat i :: 32 word) = of_nat k \<longleftrightarrow> i = k"
  by (metis unat_of_nat_32)

lemma unat_lt_32: "unat (w :: 32 word) < 2 ^ 32"
  using unsigned_less[of w] by simp

lemma initialize_client_effect:
  "clients (fst (initialize_client ext nc bc i p))
     = clients (fst p) @ [Client_new i bc nc (of_nat (shd (snd p) mod 4000))
                        (fst (generateRandomState (stl (snd p)))) ext]"
  "onlineClients (fst (initialize_client ext nc bc i p))
     = (if fst (generateRandomState (stl (snd p))) = ONLINE then insert i (onlineClients (fst p))
        else onlineClients (fst p))"
  "offlineClients (fst (initialize_client ext nc bc i p))
     = (if fst (generateRandomState (stl (snd p))) = ONLINE then offlineClients (fst p)
        else insert i (offlineClients (fst p)))"
  "clientState (fst (initialize_client ext nc bc i p))
     = csm_assign i (fst (generateRandomState (stl (snd p)))) (clientState (fst p))"
  by (simp_all add: initialize_client_def case_prod_beta Let_def)

lemma Client_new_simps [simp]:
  "clientId (Client_new i bc nc sp s ext) = i" "state (Client_new i bc nc sp s ext) = s"
  by (simp_all add: Client_new_def)

lemma initialize_client_prefix:
  assumes e: "clients sim0 = []" "onlineClients sim0 = {}" "offlineClients sim0 = {}"
    "clientState sim0 = []"
  shows "k \<le> unat nc \<Longrightarrow>
     (let sim = fst (fold (initialize_client ext nc bc) (map of_nat [0..<k]) (sim0, g))
      in length (clients sim) = k
       \<and> (\<forall>i<k. clientId (clients sim ! i) = of_nat i)
       \<and> onlineClients sim \<inter> offlineClients sim = {}
       \<and> onlineClients sim \<union> offlineClients sim = of_nat ` {0..<k}
       \<and> (\<forall>i<k. (of_nat i \<in> onlineClients sim \<longleftrightarrow> state (clients sim ! i) = ONLINE)
                \<and> map_of (clientState sim) (of_nat i) = Some (state (clients sim ! i))))"
proof (induction k)
  case 0
  show ?case using e by simp
next
  case (Suc k)
  let ?p = "fold (initialize_client ext nc bc) (map of_nat [0..<k]) (sim0, g)"
  let ?sim = "fst ?p"
  let ?s = "fst (generateRandomState (stl (snd ?p)))"
  let ?sim' = "fst (initialize_client ext nc bc (of_nat k) ?p)"
  from Suc.prems have k: "k \<le> unat nc" and k32: "k < 2 ^ 32"
    using unat_lt_32[of nc] by simp_all
  note ih = Suc.IH[OF k, unfolded Let_def]
  have step: "fst (fold (initialize_client ext nc bc) (map of_nat [0..<Suc k]) (sim0, g)) = ?sim'"
    by simp
  have ne: "\<And>i. i < k \<Longrightarrow> (of_nat i :: 32 word) \<noteq> of_nat k"
    using k32 by (simp add: of_nat_eq_32)
  have "(of_nat k :: 32 word) \<notin> of_nat ` {0..<k}"
  proof
    assume "(of_nat k :: 32 word) \<in> of_nat ` {0..<k}"
    then obtain i where "i < k" "(of_nat k :: 32 word) = of_nat i" by auto
    with ne[of i] show False by simp
  qed
  then have fresh: "(of_nat k :: 32 word) \<notin> onlineClients ?sim \<union> offlineClients ?sim"
    using ih by simp
  have len: "length (clients ?sim') = Suc k" using ih by (simp add: initialize_client_effect)
  have ids: "\<forall>i<Suc k. clientId (clients ?sim' ! i) = of_nat i"
    using ih by (auto simp: initialize_client_effect nth_append less_Suc_eq)
  have dis: "onlineClients ?sim' \<inter> offlineClients ?sim' = {}"
    using ih fresh by (auto simp: initialize_client_effect)
  have un: "onlineClients ?sim' \<union> offlineClients ?sim' = of_nat ` {0..<Suc k}"
    using ih by (auto simp: initialize_client_effect atLeast0_lessThan_Suc)
  have tab: "\<forall>i<Suc k. (of_nat i \<in> onlineClients ?sim' \<longleftrightarrow> state (clients ?sim' ! i) = ONLINE)
                \<and> map_of (clientState ?sim') (of_nat i) = Some (state (clients ?sim' ! i))"
  proof (intro allI impI)
    fix i assume "i < Suc k"
    then consider "i < k" | "i = k" by linarith
    then show "(of_nat i \<in> onlineClients ?sim' \<longleftrightarrow> state (clients ?sim' ! i) = ONLINE)
                \<and> map_of (clientState ?sim') (of_nat i) = Some (state (clients ?sim' ! i))"
    proof cases
      case 1
      then show ?thesis
        using ih ne[OF 1] by (auto simp: initialize_client_effect nth_append)
    next
      case 2
      then show ?thesis
        using ih fresh by (auto simp: initialize_client_effect nth_append)
    qed
  qed
  show ?case unfolding Let_def step using len ids dis un tab by blast
qed


lemma addBuddy_core [simp]:
  "state (snd (addBuddy c b s)) = state c" "clientId (snd (addBuddy c b s)) = clientId c"
  by (simp_all add: addBuddy_def)

lemma addObserver_core [simp]:
  "state (snd (addObserver c b)) = state c" "clientId (snd (addObserver c b)) = clientId c"
  by (simp_all add: addObserver_def)

lemma nth_update_pres: "f x = f (cs ! k) \<Longrightarrow> f (cs[k := x] ! i) = f (cs ! i)"
  by (cases "i = k"; cases "k < length cs"; simp add: list_update_beyond not_less)

lemma buddy_step_core:
  fixes cs :: "'a Client_scheme list"
  defines "upd \<equiv> \<lambda>cs j buddyId.
     (let r = addBuddy (cs ! unat j) buddyId (getState (cs ! unat buddyId));
          cs1 = cs[unat j := snd r]
      in if fst r then cs1[unat buddyId := snd (addObserver (cs1 ! unat buddyId) j)] else cs1)"
  shows "length (upd cs j b) = length cs
       \<and> (\<forall>i<length cs. state (upd cs j b ! i) = state (cs ! i)
                        \<and> clientId (upd cs j b ! i) = clientId (cs ! i))"
  by (simp add: upd_def Let_def nth_update_pres[where f = state]
      nth_update_pres[where f = clientId])

lemma initialize_buddies_core:
  "initialize_buddies nc bc j cs g = Some y \<Longrightarrow>
   (case y of Inl e \<Rightarrow> True
            | Inr r \<Rightarrow> length (fst r) = length cs
                      \<and> (\<forall>i<length cs. state (fst r ! i) = state (cs ! i)
                                       \<and> clientId (fst r ! i) = clientId (cs ! i)))"
proof (erule initialize_buddies.raw_induct[rotated], goal_cases)
  case (1 f nc bc j cs g y)
  let ?b = "of_nat (shd g mod unat nc) :: clientId_t"
  let ?cs2 = "(let buddyId = ?b;
                   r = addBuddy (cs ! unat j) buddyId (getState (cs ! unat buddyId));
                   cs1 = cs[unat j := snd r]
               in if fst r then cs1[unat buddyId := snd (addObserver (cs1 ! unat buddyId) j)]
                  else cs1)"
  have core: "length ?cs2 = length cs
       \<and> (\<forall>i<length cs. state (?cs2 ! i) = state (cs ! i) \<and> clientId (?cs2 ! i) = clientId (cs ! i))"
    using buddy_step_core[of cs j ?b] by (simp add: Let_def)
  show ?case
  proof (cases y)
    case (Inl e)
    then show ?thesis by simp
  next
    case (Inr r)
    have "r = (cs, g) \<or> f nc bc j ?cs2 (stl g) = Some (Inr r)"
    proof (cases "length cs \<le> unat j")
      case True
      with 1(2) Inr show ?thesis by simp
    next
      case F1: False
      show ?thesis
      proof (cases "getBuddyCount (cs ! unat j) < unat bc")
        case False
        with 1(2) Inr F1 show ?thesis by simp
      next
        case T2: True
        show ?thesis
        proof (cases "nc = 0")
          case True
          with 1(2) Inr F1 T2 show ?thesis by simp
        next
          case F3: False
          show ?thesis
          proof (cases "length cs \<le> unat ?b")
            case True
            with 1(2) Inr F1 T2 F3 show ?thesis by simp
          next
            case False
            with 1(2) Inr F1 T2 F3 show ?thesis by simp
          qed
        qed
      qed
    qed
    then consider
      (stop) "r = (cs, g)" | (step) "f nc bc j ?cs2 (stl g) = Some (Inr r)"
      by blast
    then show ?thesis
    proof cases
      case stop
      with Inr show ?thesis by simp
    next
      case step
      from 1(1)[OF step] have "length (fst r) = length ?cs2
          \<and> (\<forall>i<length ?cs2. state (fst r ! i) = state (?cs2 ! i)
                             \<and> clientId (fst r ! i) = clientId (?cs2 ! i))"
        by simp
      with core Inr show ?thesis by simp
    qed
  qed
qed

lemma initialize_buddyLists_core:
  "initialize_buddyLists nc bc js cs g = Some (Inr r) \<Longrightarrow>
   length (fst r) = length cs
   \<and> (\<forall>i<length cs. state (fst r ! i) = state (cs ! i) \<and> clientId (fst r ! i) = clientId (cs ! i))"
proof (induction js arbitrary: cs g)
  case Nil
  then show ?case by auto
next
  case (Cons j js)
  from Cons.prems obtain cs1 g1 where
    a: "initialize_buddies nc bc j cs g = Some (Inr (cs1, g1))"
    and b: "initialize_buddyLists nc bc js cs1 g1 = Some (Inr r)"
    by (auto split: option.splits sum.splits)
  from initialize_buddies_core[OF a] Cons.IH[OF b] show ?case by simp
qed

lemma ids_below: "(of_nat ` {0..<unat nc} :: 32 word set) = {i. i < nc}"
proof (intro set_eqI iffI)
  fix x :: "32 word"
  assume "x \<in> of_nat ` {0..<unat nc}"
  then obtain k where k: "k < unat nc" and x: "x = of_nat k" by auto
  from k have "k < 2 ^ 32" using unat_lt_32[of nc] by simp
  then have "unat x = k" using x by (simp add: unat_of_nat_32)
  with k show "x \<in> {i. i < nc}" by (simp add: word_less_nat_alt)
next
  fix x :: "32 word"
  assume "x \<in> {i. i < nc}"
  then have "unat x < unat nc" by (simp add: word_less_nat_alt)
  moreover have "x = of_nat (unat x)" by simp
  ultimately show "x \<in> of_nat ` {0..<unat nc}" by (metis atLeastLessThan_iff image_eqI zero_le)
qed

text \<open>The constructor, when it returns, leaves the tables consistent.\<close>

lemma ClientSimulator_new_consistent:
  assumes ret: "ClientSimulator_new ext nc bc u g = Some (Inr (sim, g2))"
  shows "ClientSimulator_consistent nc sim"
proof -
  let ?sim0 = "\<lparr>clients = [], onlineClients = {}, offlineClients = {}, messageQueue = [],
        stats = SimulatorStatistics_new u, clientState = [], sleepSchedule = Map.empty\<rparr>
        :: 'a ClientSimulator"
  let ?ids = "map of_nat [0..<unat nc] :: clientId_t list"
  let ?p = "fold (initialize_client ext nc bc) ?ids (?sim0, g)"
  let ?sim1 = "fst ?p"
  from ret obtain cs where
    bl: "initialize_buddyLists nc bc ?ids (clients ?sim1) (snd ?p) = Some (Inr (cs, g2))"
    and sim: "sim = ?sim1\<lparr>clients := cs\<rparr>"
    by (auto simp: ClientSimulator_new_def initialize_def case_prod_beta Let_def
        split: option.splits sum.splits)
  have pre: "length (clients ?sim1) = unat nc
       \<and> (\<forall>i<unat nc. clientId (clients ?sim1 ! i) = of_nat i)
       \<and> onlineClients ?sim1 \<inter> offlineClients ?sim1 = {}
       \<and> onlineClients ?sim1 \<union> offlineClients ?sim1 = of_nat ` {0..<unat nc}
       \<and> (\<forall>i<unat nc. (of_nat i \<in> onlineClients ?sim1 \<longleftrightarrow> state (clients ?sim1 ! i) = ONLINE)
                \<and> map_of (clientState ?sim1) (of_nat i) = Some (state (clients ?sim1 ! i)))"
    using initialize_client_prefix[of ?sim0 "unat nc" nc ext bc g] by (simp add: Let_def)
  from initialize_buddyLists_core[OF bl] have core: "length cs = length (clients ?sim1)"
    "\<forall>i<length (clients ?sim1). state (cs ! i) = state (clients ?sim1 ! i)
                                 \<and> clientId (cs ! i) = clientId (clients ?sim1 ! i)"
    by simp_all
  have idx: "unat i < unat nc" "of_nat (unat i) = i" if "i < nc" for i :: "32 word"
    using that by (simp_all add: word_less_nat_alt)
  show ?thesis
    unfolding ClientSimulator_consistent_def
  proof (intro conjI allI impI)
    show "length (clients sim) = unat nc" using pre core sim by simp
    show "onlineClients sim \<inter> offlineClients sim = {}" using pre sim by simp
    show "onlineClients sim \<union> offlineClients sim = {i. i < nc}"
      using pre sim by (simp add: ids_below)
  next
    fix i :: "32 word" assume i: "i < nc"
    from pre idx[OF i] core
    have a: "clientId (cs ! unat i) = i" "state (cs ! unat i) = state (clients ?sim1 ! unat i)"
      by (metis, metis)
    from pre idx[OF i]
    have b: "(i \<in> onlineClients ?sim1) = (state (clients ?sim1 ! unat i) = ONLINE)"
      "map_of (clientState ?sim1) i = Some (state (clients ?sim1 ! unat i))"
      by (metis, metis)
    show "clientId (clients sim ! unat i) = i" using a sim by simp
    show "(i \<in> onlineClients sim) = (state (clients sim ! unat i) = ONLINE)"
      using a b sim by simp
    show "map_of (clientState sim) i = Some (state (clients sim ! unat i))"
      using a b sim by simp
  qed
qed

lemma initialize_buddies_stop:
  "unat j < length cs \<Longrightarrow> \<not> getBuddyCount (cs ! unat j) < unat bc \<Longrightarrow>
   initialize_buddies nc bc j cs g = Some (Inr (cs, g))"
  by (subst initialize_buddies.simps) simp

lemma initialize_buddies_step:
  "unat j < length cs \<Longrightarrow> getBuddyCount (cs ! unat j) < unat bc \<Longrightarrow> nc \<noteq> 0 \<Longrightarrow>
   unat (of_nat (shd g mod unat nc) :: clientId_t) < length cs \<Longrightarrow>
   initialize_buddies nc bc j cs g =
     initialize_buddies nc bc j
       (let buddyId = of_nat (shd g mod unat nc);
            r = addBuddy (cs ! unat j) buddyId (getState (cs ! unat buddyId));
            cs1 = cs[unat j := snd r]
        in if fst r then cs1[unat buddyId := snd (addObserver (cs1 ! unat buddyId) j)] else cs1)
       (stl g)"
  by (subst initialize_buddies.simps) simp

lemma example_simulator:
  "\<exists>sim g2. GossipSimulator_new 2 1 0 (5 ## 0 ## 6 ## 1 ## 1 ## 0 ## sconst 0) = Some (Inr (sim, g2))"
proof -
  have ids: "map of_nat [0..<unat (2 :: 32 word)] = [0, 1 :: 32 word]"
    by (simp add: upt_rec)
  show ?thesis
    unfolding GossipSimulator_new_def ClientSimulator_new_def initialize_def ids
    apply (simp add: initialize_client_def generateRandomState_def Client_new_def Let_def
        csm_assign_def schedule_insert_def addStateSwitch_def getClientId_def getState_def)
    apply (subst initialize_buddies_step; simp add: getBuddyCount_def)
    apply (subst initialize_buddies_stop; simp add: getBuddyCount_def addBuddy_def addObserver_def csm_assign_def getState_def)
    apply (subst initialize_buddies_step; simp add: getBuddyCount_def)
    apply (subst initialize_buddies_stop; simp add: getBuddyCount_def addBuddy_def addObserver_def csm_assign_def getState_def)
    done
qed


lemma sleepDuration_range:
  "unat (of_nat (r mod 4000) + 1 :: 32 word) = r mod 4000 + 1"
proof -
  have "r mod 4000 < 4000" by simp
  then have a: "unat (of_nat (r mod 4000) :: 32 word) = r mod 4000"
    by (simp add: unat_of_nat_32)
  have "unat (of_nat (r mod 4000) + 1 :: 32 word)
          = (unat (of_nat (r mod 4000) :: 32 word) + unat (1 :: 32 word)) mod 2 ^ 32"
    by (simp add: unat_word_ariths)
  also have "\<dots> = r mod 4000 + 1"
    unfolding a using \<open>r mod 4000 < 4000\<close> by simp
  finally show ?thesis .
qed

text \<open>What \<^verbatim>\<open>switchClientState\<close> does on consistent tables.\<close>

lemma switchClientState_consistent:
  assumes inv: "ClientSimulator_consistent nc sim" and cid: "cid < nc"
  shows "\<exists>sim2. switchClientState cid ts sim g = Inr (sim2, stl g)
           \<and> ClientSimulator_consistent nc sim2
           \<and> state (clients sim2 ! unat cid) \<noteq> state (clients sim ! unat cid)
           \<and> (\<exists>ids. sleepSchedule sim2 (ts + (of_nat (shd g mod 4000) + 1)) = Some ids \<and> cid \<in> ids)
           \<and> totalSleepTime (stats sim2)
               = totalSleepTime (stats sim) + (of_nat (shd g mod 4000) + 1)
           \<and> totalSleepStates (stats sim2) = totalSleepStates (stats sim) + 1
           \<and> stateSwitches (stats sim2) cid = Some ts
           \<and> stats_state (stats sim2) cid = Some (state (clients sim2 ! unat cid))"
proof -
  let ?c = "clients sim ! unat cid"
  let ?c2 = "snd (switchState ?c ts)"
  let ?s2 = "if state ?c = ONLINE then OFFLINE else ONLINE"
  let ?d = "of_nat (shd g mod 4000) + 1 :: uint32_t"
  let ?on2 = "if ?s2 = ONLINE then insert cid (onlineClients sim) else onlineClients sim - {cid}"
  let ?off2 = "if ?s2 = ONLINE then offlineClients sim - {cid} else insert cid (offlineClients sim)"
  let ?sim2 = "sim\<lparr>clients := (clients sim)[unat cid := ?c2],
                  sleepSchedule := schedule_insert (ts + ?d) cid (sleepSchedule sim),
                  clientState := csm_assign cid ?s2 (clientState sim),
                  onlineClients := ?on2, offlineClients := ?off2,
                  stats := addStateSwitch cid ts ?s2
                             (incrementSleepStates (addSleepTime ?d (stats sim)))\<rparr>"
  from inv have len: "length (clients sim) = unat nc"
    and ids: "\<And>i. i < nc \<Longrightarrow> clientId (clients sim ! unat i) = i"
    and dis: "onlineClients sim \<inter> offlineClients sim = {}"
    and un: "onlineClients sim \<union> offlineClients sim = {i. i < nc}"
    and on: "\<And>i. i < nc \<Longrightarrow> (i \<in> onlineClients sim) = (state (clients sim ! unat i) = ONLINE)"
    and tab: "\<And>i. i < nc \<Longrightarrow> map_of (clientState sim) i = Some (state (clients sim ! unat i))"
    by (simp_all add: ClientSimulator_consistent_def)
  have rng: "unat cid < length (clients sim)" using cid len by (simp add: word_less_nat_alt)
  have c2: "state ?c2 = ?s2" "clientId ?c2 = cid"
    using ids[OF cid] by (simp_all add: switchState_def Let_def)
  have run: "switchClientState cid ts sim g = Inr (?sim2, stl g)"
    using rng c2 by (auto simp: switchClientState_def Let_def getClientId_def getState_def)
  have nth2: "clients ?sim2 ! unat i = (if i = cid then ?c2 else clients sim ! unat i)" for i
    using rng by (auto simp: nth_list_update word_unat_eq_iff)
  have cons: "ClientSimulator_consistent nc ?sim2"
    unfolding ClientSimulator_consistent_def
  proof (intro conjI allI impI)
    show "length (clients ?sim2) = unat nc" using len by simp
    show "onlineClients ?sim2 \<inter> offlineClients ?sim2 = {}" using dis by auto
    show "onlineClients ?sim2 \<union> offlineClients ?sim2 = {i. i < nc}" using un cid by auto
  next
    fix i assume i: "i < nc"
    show "clientId (clients ?sim2 ! unat i) = i"
      unfolding nth2 using ids[OF i] c2 by simp
    show "(i \<in> onlineClients ?sim2) = (state (clients ?sim2 ! unat i) = ONLINE)"
      unfolding nth2 using on[OF i] c2 by (cases "state ?c") auto
    show "map_of (clientState ?sim2) i = Some (state (clients ?sim2 ! unat i))"
      unfolding nth2 using tab[OF i] c2 by simp
  qed
  have flip: "state (clients ?sim2 ! unat cid) \<noteq> state (clients sim ! unat cid)"
    unfolding nth2 using c2 by (cases "state ?c") simp_all
  have sched: "\<exists>ids. sleepSchedule ?sim2 (ts + ?d) = Some ids \<and> cid \<in> ids"
    by (simp add: schedule_insert_def)
  have st: "totalSleepTime (stats ?sim2) = totalSleepTime (stats sim) + ?d"
    "totalSleepStates (stats ?sim2) = totalSleepStates (stats sim) + 1"
    "stateSwitches (stats ?sim2) cid = Some ts"
    "stats_state (stats ?sim2) cid = Some (state (clients ?sim2 ! unat cid))"
    unfolding nth2 using c2
    by (simp_all add: addStateSwitch_def incrementSleepStates_def addSleepTime_def)
  from run cons flip sched st show ?thesis by blast
qed

text \<open>
  C7. Whenever the constructor of the simulator returns, and again after every
  \<^verbatim>\<open>switchClientState\<close> on an id below \<open>N\<close>, the tables are consistent: \<^verbatim>\<open>onlineClients_\<close> and
  \<^verbatim>\<open>offlineClients_\<close> are disjoint and their union is the ids below \<open>N\<close>, an id is in
  \<^verbatim>\<open>onlineClients_\<close> exactly when its client is \<open>ONLINE\<close>, and \<^verbatim>\<open>clientState_\<close> maps it to its
  client's state. On consistent tables \<^verbatim>\<open>switchClientState(id, timestamp)\<close> returns, flips
  the client's state, and with \<open>d = rand() % 4000 + 1\<close>, which lies in 1..4000, it has put
  the id in \<^verbatim>\<open>sleepSchedule_[timestamp + d]\<close>, added \<open>d\<close> to \<^verbatim>\<open>totalSleepTime_\<close>, incremented
  \<^verbatim>\<open>totalSleepStates_\<close>, and recorded the timestamp and the new state for the id in the
  sink.
\<close>

theorem simulator_tables_consistent:
  "(ClientSimulator_new ext nc bc u g = Some (Inr (sim0, g0)) \<longrightarrow>
      ClientSimulator_consistent nc sim0)
   \<and> (ClientSimulator_consistent nc sim \<and> cid < nc \<longrightarrow>
        (\<exists>sim2. switchClientState cid ts sim g = Inr (sim2, stl g)
           \<and> ClientSimulator_consistent nc sim2
           \<and> state (clients sim2 ! unat cid) \<noteq> state (clients sim ! unat cid)
           \<and> 1 \<le> unat (of_nat (shd g mod 4000) + 1 :: uint32_t)
           \<and> unat (of_nat (shd g mod 4000) + 1 :: uint32_t) \<le> 4000
           \<and> (\<exists>ids. sleepSchedule sim2 (ts + (of_nat (shd g mod 4000) + 1)) = Some ids
                    \<and> cid \<in> ids)
           \<and> totalSleepTime (stats sim2)
               = totalSleepTime (stats sim) + (of_nat (shd g mod 4000) + 1)
           \<and> totalSleepStates (stats sim2) = totalSleepStates (stats sim) + 1
           \<and> stateSwitches (stats sim2) cid = Some ts
           \<and> stats_state (stats sim2) cid = Some (state (clients sim2 ! unat cid))))"
proof (intro conjI impI)
  assume "ClientSimulator_new ext nc bc u g = Some (Inr (sim0, g0))"
  then show "ClientSimulator_consistent nc sim0" by (rule ClientSimulator_new_consistent)
next
  assume a: "ClientSimulator_consistent nc sim \<and> cid < nc"
  have d: "1 \<le> unat (of_nat (shd g mod 4000) + 1 :: uint32_t)"
    "unat (of_nat (shd g mod 4000) + 1 :: uint32_t) \<le> 4000"
    unfolding sleepDuration_range
    using mod_less_divisor[of 4000 "shd g"] by simp_all
  from switchClientState_consistent[of nc sim cid ts g] a d
  show "\<exists>sim2. switchClientState cid ts sim g = Inr (sim2, stl g)
           \<and> ClientSimulator_consistent nc sim2
           \<and> state (clients sim2 ! unat cid) \<noteq> state (clients sim ! unat cid)
           \<and> 1 \<le> unat (of_nat (shd g mod 4000) + 1 :: uint32_t)
           \<and> unat (of_nat (shd g mod 4000) + 1 :: uint32_t) \<le> 4000
           \<and> (\<exists>ids. sleepSchedule sim2 (ts + (of_nat (shd g mod 4000) + 1)) = Some ids
                    \<and> cid \<in> ids)
           \<and> totalSleepTime (stats sim2)
               = totalSleepTime (stats sim) + (of_nat (shd g mod 4000) + 1)
           \<and> totalSleepStates (stats sim2) = totalSleepStates (stats sim) + 1
           \<and> stateSwitches (stats sim2) cid = Some ts
           \<and> stats_state (stats sim2) cid = Some (state (clients sim2 ! unat cid))"
    by blast
qed

theorem simulator_tables_consistent_witness:
  "\<exists>sim0 g0.
     GossipSimulator_new 2 1 0 (5 ## 0 ## 6 ## 1 ## 1 ## 0 ## sconst 0) = Some (Inr (sim0, g0))
   \<and> ClientSimulator_consistent 2 sim0 \<and> (0 :: clientId_t) < 2
   \<and> (\<exists>sim2. switchClientState 0 5 sim0 g0 = Inr (sim2, stl g0)
         \<and> ClientSimulator_consistent 2 sim2
         \<and> state (clients sim2 ! unat (0 :: clientId_t)) \<noteq> state (clients sim0 ! unat (0 :: clientId_t)))"
proof -
  from example_simulator obtain sim0 g0 where
    r: "GossipSimulator_new 2 1 0 (5 ## 0 ## 6 ## 1 ## 1 ## 0 ## sconst 0) = Some (Inr (sim0, g0))"
    by blast
  then have r': "ClientSimulator_new \<lparr>lastGossipRequest = 0, messagesSent = 0, gossipedNodes = {}\<rparr>
      2 1 0 (5 ## 0 ## 6 ## 1 ## 1 ## 0 ## sconst 0) = Some (Inr (sim0, g0))"
    by (simp add: GossipSimulator_new_def)
  have c0: "ClientSimulator_consistent 2 sim0"
    by (rule simulator_tables_consistent[THEN conjunct1, THEN mp, OF r'])
  have lt: "(0 :: clientId_t) < 2" by simp
  from simulator_tables_consistent[where nc = 2 and sim = sim0 and cid = 0 and ts = 5 and g = g0,
      THEN conjunct2, THEN mp, OF conjI[OF c0 lt]]
  obtain sim2 where "switchClientState 0 5 sim0 g0 = Inr (sim2, stl g0)"
    "ClientSimulator_consistent 2 sim2"
    "state (clients sim2 ! unat (0 :: clientId_t)) \<noteq> state (clients sim0 ! unat (0 :: clientId_t))"
    by blast
  with r c0 lt show ?thesis by blast
qed

text \<open>
  C6. The emission of \<^verbatim>\<open>HeartbeatClient::runTasks\<close> reads \<^verbatim>\<open>observers_[nextObserver_]\<close>
  without testing that the node has an observer. The constructor of
  \<^verbatim>\<open>HeartbeatSimulator<3, 1, timespan>\<close>, with \<^verbatim>\<open>rand()\<close> returning 100, 0, 100, 0, 100, 0
  (three online nodes asleep at second 100) and then 1, 0, 0 (node 0 picks the buddy 1,
  nodes 1 and 2 pick the buddy 0), returns a simulator whose node 2 is online and observed
  by nobody. On that node \<^verbatim>\<open>runTasks(12)\<close>, the first call with
  \<open>timestamp - lastMessageTimestamp > 11\<close>, enqueues no heartbeat: it reads
  \<^verbatim>\<open>observers_[0]\<close> of an empty vector, whatever the queue, the sink, and the node's buddy
  table and update times (all that the calls of the seconds 0 to 11 change) hold.
\<close>

theorem heartbeat_emission_without_observer:
  "\<exists>sim g2.
     HeartbeatSimulator_new 3 1 0
       (100 ## 0 ## 100 ## 0 ## 100 ## 0 ## 1 ## 0 ## 0 ## sconst 0) = Some (Inr (sim, g2))
     \<and> length (clients sim) = 3
     \<and> isOnline (clients sim ! 2)
     \<and> observers (clients sim ! 2) = []
     \<and> nextObserver (clients sim ! 2) = 0
     \<and> lastMessageTimestamp (clients sim ! 2) = 0
     \<and> 11 < (12 :: uint32_t) - lastMessageTimestamp (clients sim ! 2)
     \<and> HeartbeatClient_runTasks (clients sim ! 2) 12 (messageQueue sim) (stats sim)
         = Inl IndexOutOfRange
     \<and> (\<forall>bs lb q st.
           HeartbeatClient_runTasks
             ((clients sim ! 2)\<lparr>buddyState := bs, lastBuddyUpdate := lb\<rparr>) 12 q st
           = Inl IndexOutOfRange)"
proof -
  have ids: "map of_nat [0..<unat (3 :: 32 word)] = [0, 1, 2 :: 32 word]"
    by (simp add: upt_rec)
  show ?thesis
    unfolding HeartbeatSimulator_new_def ClientSimulator_new_def initialize_def ids
    apply (simp add: initialize_client_def generateRandomState_def Client_new_def Let_def
        csm_assign_def schedule_insert_def addStateSwitch_def getClientId_def getState_def)
    apply (subst initialize_buddies_step; simp add: getBuddyCount_def)
    apply (subst initialize_buddies_stop; simp add: getBuddyCount_def addBuddy_def addObserver_def csm_assign_def getState_def)
    apply (subst initialize_buddies_step; simp add: getBuddyCount_def)
    apply (subst initialize_buddies_stop; simp add: getBuddyCount_def addBuddy_def addObserver_def csm_assign_def getState_def)
    apply (subst initialize_buddies_step; simp add: getBuddyCount_def)
    apply (subst initialize_buddies_stop; simp add: getBuddyCount_def addBuddy_def addObserver_def csm_assign_def getState_def)
    apply (simp add: HeartbeatClient_runTasks_def runTasks_emit_def isOnline_def)
    done
qed

section \<open>Properties of the dispatch loop\<close>

lemma dispatchPendingMessages_pops:
  "dispatchPendingMessages h sim g = Some y \<Longrightarrow>
   (case y of Inl e \<Rightarrow> True | Inr r \<Rightarrow> \<exists>tr. dispatchPending_pops h sim g tr (fst r) (snd r))"
proof (erule dispatchPendingMessages.raw_induct[rotated], goal_cases)
  case (1 f h sim g y)
  show ?case
  proof (cases y)
    case (Inl e)
    then show ?thesis by simp
  next
    case (Inr r)
    show ?thesis
    proof (cases "messageQueue sim = []")
      case True
      with 1(2) Inr have "r = (sim, g)" by simp
      with True Inr show ?thesis by (auto intro: dispatchPending_pops.stop)
    next
      case False
      with 1(2) obtain x where s: "dispatchPending_step h sim g = Some x"
        and k: "(case x of Inl e \<Rightarrow> Some (Inl e) | Inr simg \<Rightarrow> f h (fst simg) (snd simg)) = Some y"
        by (auto simp: bind_eq_Some_conv)
      from k Inr obtain sim1 g1 where x: "x = Inr (sim1, g1)" and r: "f h sim1 g1 = Some (Inr r)"
        by (cases x) auto
      from 1(1)[OF r] obtain tr where "dispatchPending_pops h sim1 g1 tr (fst r) (snd r)"
        by auto
      with False s x have "dispatchPending_pops h sim g ((hd (messageQueue sim), shd g) # tr) (fst r) (snd r)"
        by (intro dispatchPending_pops.round) simp_all
      with Inr show ?thesis by auto
    qed
  qed
qed

lemma dispatchPending_pops_returns:
  "dispatchPending_pops h sim g tr sim2 g2 \<Longrightarrow>
   dispatchPendingMessages h sim g = Some (Inr (sim2, g2))"
proof (induction rule: dispatchPending_pops.induct)
  case (stop sim g)
  then show ?case by (subst dispatchPendingMessages.simps) simp
next
  case (round sim g sim1 g1 tr sim2 g2)
  then show ?case by (subst dispatchPendingMessages.simps) simp
qed

lemma dispatchPending_pops_empty:
  "dispatchPending_pops h sim g tr sim2 g2 \<Longrightarrow> messageQueue sim2 = []"
  by (induction rule: dispatchPending_pops.induct) simp_all

lemma dispatchPending_step_unfold:
  assumes q: "messageQueue sim = m # q"
  shows "dispatchPending_step h sim g =
    (if shd g mod 100 < 5 then
       Some (Inr (sim\<lparr>stats := incrementMessagesDropped (incrementMessagesSent (stats sim)),
                       messageQueue := q\<rparr>, stl g))
     else if length (clients sim) \<le> unat (recipientId m) then Some (Inl IndexOutOfRange)
     else
       (case h (clients sim ! unat (recipientId m)) m (m # q)
                 (incrementMessagesSent (stats sim)) (stl g) of
          None \<Rightarrow> None
        | Some (Inl e) \<Rightarrow> Some (Inl e)
        | Some (Inr (c, q2, st2, g1)) \<Rightarrow>
            Some (Inr (sim\<lparr>clients := (clients sim)[unat (recipientId m) := c],
                            messageQueue := tl q2, stats := st2\<rparr>, g1))))"
  using q
  by (auto simp: dispatchPending_step_def dispatchMessage_def Let_def
      split: option.splits sum.splits prod.splits)

lemma dispatchPending_step_effect:
  assumes h: "\<forall>c m q st g c2 q2 st2 g2. h c m q st g = Some (Inr (c2, q2, st2, g2)) \<longrightarrow>
                (\<exists>new. q2 = q @ new) \<and> totalMessagesSent st2 = totalMessagesSent st
                \<and> totalDroppedMessages st2 = totalDroppedMessages st"
    and q: "messageQueue sim = m # q"
    and s: "dispatchPending_step h sim g = Some (Inr (sim1, g1))"
  shows "\<exists>new. messageQueue sim1 = q @ new"
    and "totalMessagesSent (stats sim1) = totalMessagesSent (stats sim) + 1"
    and "totalDroppedMessages (stats sim1)
           = totalDroppedMessages (stats sim) + (if shd g mod 100 < 5 then 1 else 0)"
proof -
  show "\<exists>new. messageQueue sim1 = q @ new"
  proof (cases "shd g mod 100 < 5")
    case True
    with s have "messageQueue sim1 = q @ []"
      by (auto simp: dispatchPending_step_unfold[OF q])
    then show ?thesis by blast
  next
    case False
    with s obtain c q2 st2
      where r: "h (clients sim ! unat (recipientId m)) m (m # q)
                  (incrementMessagesSent (stats sim)) (stl g) = Some (Inr (c, q2, st2, g1))"
        and e: "messageQueue sim1 = tl q2"
      by (auto simp: dispatchPending_step_unfold[OF q]
          split: if_splits option.splits sum.splits prod.splits)
    from h[rule_format, OF r] obtain new where "q2 = (m # q) @ new" by blast
    with e show ?thesis by simp
  qed
  show "totalMessagesSent (stats sim1) = totalMessagesSent (stats sim) + 1"
  proof (cases "shd g mod 100 < 5")
    case True
    with s show ?thesis
      by (auto simp: dispatchPending_step_unfold[OF q] incrementMessagesSent_def
          incrementMessagesDropped_def)
  next
    case False
    with s obtain c q2 st2
      where r: "h (clients sim ! unat (recipientId m)) m (m # q)
                  (incrementMessagesSent (stats sim)) (stl g) = Some (Inr (c, q2, st2, g1))"
        and e: "stats sim1 = st2"
      by (auto simp: dispatchPending_step_unfold[OF q]
          split: if_splits option.splits sum.splits prod.splits)
    from h[rule_format, OF r] e show ?thesis by (simp add: incrementMessagesSent_def)
  qed
  show "totalDroppedMessages (stats sim1)
          = totalDroppedMessages (stats sim) + (if shd g mod 100 < 5 then 1 else 0)"
  proof (cases "shd g mod 100 < 5")
    case True
    with s show ?thesis
      by (auto simp: dispatchPending_step_unfold[OF q] incrementMessagesSent_def
          incrementMessagesDropped_def)
  next
    case False
    with s obtain c q2 st2
      where r: "h (clients sim ! unat (recipientId m)) m (m # q)
                  (incrementMessagesSent (stats sim)) (stl g) = Some (Inr (c, q2, st2, g1))"
        and e: "stats sim1 = st2"
      by (auto simp: dispatchPending_step_unfold[OF q]
          split: if_splits option.splits sum.splits prod.splits)
    from h[rule_format, OF r] e False show ?thesis by (simp add: incrementMessagesSent_def)
  qed
qed

lemma dispatchPending_pops_effect:
  assumes h: "\<forall>c m q st g c2 q2 st2 g2. h c m q st g = Some (Inr (c2, q2, st2, g2)) \<longrightarrow>
                (\<exists>new. q2 = q @ new) \<and> totalMessagesSent st2 = totalMessagesSent st
                \<and> totalDroppedMessages st2 = totalDroppedMessages st"
  shows "dispatchPending_pops h sim g tr sim2 g2 \<Longrightarrow>
     (\<exists>later. map fst tr = messageQueue sim @ later)
     \<and> totalMessagesSent (stats sim2) = totalMessagesSent (stats sim) + of_nat (length tr)
     \<and> totalDroppedMessages (stats sim2)
         = totalDroppedMessages (stats sim)
           + of_nat (length (filter (\<lambda>e. snd e mod 100 < 5) tr))"
proof (induction rule: dispatchPending_pops.induct)
  case (stop sim g)
  then show ?case by simp
next
  case (round sim g sim1 g1 tr sim2 g2)
  from round(1) obtain m q where q: "messageQueue sim = m # q"
    by (cases "messageQueue sim") auto
  note e = dispatchPending_step_effect[OF h q round(2)]
  from e(1) obtain new where n: "messageQueue sim1 = q @ new" by blast
  from round.IH obtain later where l: "map fst tr = messageQueue sim1 @ later" by blast
  have a: "\<exists>later. map fst ((hd (messageQueue sim), shd g) # tr) = messageQueue sim @ later"
    using q n l by simp
  have b: "totalMessagesSent (stats sim2)
             = totalMessagesSent (stats sim) + of_nat (length ((hd (messageQueue sim), shd g) # tr))"
    using round.IH e(2) by simp
  have c: "totalDroppedMessages (stats sim2)
             = totalDroppedMessages (stats sim)
               + of_nat (length (filter (\<lambda>e. snd e mod 100 < 5)
                                   ((hd (messageQueue sim), shd g) # tr)))"
    using round.IH e(3) by simp
  from a b c show ?case by blast
qed

lemma GossipClient_handleMessage_appends:
  assumes "GossipClient_handleMessage c m q st g = Some (Inr (c2, q2, st2, g2))"
  shows "(\<exists>new. q2 = q @ new) \<and> totalMessagesSent st2 = totalMessagesSent st
         \<and> totalDroppedMessages st2 = totalDroppedMessages st"
proof (cases "isOnline c")
  case False
  with assms show ?thesis by (simp add: GossipClient_handleMessage_def)
next
  case True
  let ?r = "handleMessage_newCycle c m st"
  have n: "totalMessagesSent (snd ?r) = totalMessagesSent st"
    "totalDroppedMessages (snd ?r) = totalDroppedMessages st"
    by (simp_all add: handleMessage_newCycle_def Let_def)
  from True assms have f: "handleMessage_forward (fst ?r) m q (snd ?r) g = Some (Inr (c2, q2, st2, g2))"
    by (simp add: GossipClient_handleMessage_def case_prod_beta)
  show ?thesis
  proof (cases "5 \<le> messagesSent (fst ?r)")
    case True
    with f n show ?thesis by (simp add: handleMessage_forward_def)
  next
    case False
    let ?c1 = "(fst ?r)\<lparr>gossipedNodes := gossipedNodes (fst ?r) \<union> clientChain m\<rparr>"
    from False f n show ?thesis
      by (auto simp: handleMessage_forward_def case_prod_beta Let_def
          split: if_splits option.splits sum.splits)
  qed
qed

lemma HeartbeatClient_handler_appends:
  assumes "HeartbeatClient_handler c m q st g = Some (Inr (c2, q2, st2, g2))"
  shows "(\<exists>new. q2 = q @ new) \<and> totalMessagesSent st2 = totalMessagesSent st
         \<and> totalDroppedMessages st2 = totalDroppedMessages st"
  using assms
  by (auto simp: HeartbeatClient_handler_def HeartbeatClient_handleMessage_def
      case_prod_beta Let_def split: if_splits)

lemma dispatchPendingMessages_heartbeat_returns:
  "messageQueue sim = ms \<Longrightarrow>
   \<forall>m \<in> set ms. unat (recipientId m) < length (clients sim) \<Longrightarrow>
   \<exists>sim2. dispatchPendingMessages HeartbeatClient_handler sim g
            = Some (Inr (sim2, sdrop (length ms) g))"
proof (induction ms arbitrary: sim g)
  case Nil
  then show ?case by (subst dispatchPendingMessages.simps) simp
next
  case (Cons m q)
  have "\<exists>sim1. dispatchPending_step HeartbeatClient_handler sim g = Some (Inr (sim1, stl g))
          \<and> messageQueue sim1 = q \<and> length (clients sim1) = length (clients sim)"
    using Cons.prems
    by (simp add: dispatchPending_step_unfold[OF Cons.prems(1)] HeartbeatClient_handler_def
        case_prod_beta)
  then obtain sim1
    where s: "dispatchPending_step HeartbeatClient_handler sim g = Some (Inr (sim1, stl g))"
      and q: "messageQueue sim1 = q" and l: "length (clients sim1) = length (clients sim)"
    by blast
  from Cons.prems(2) l have "\<forall>m \<in> set q. unat (recipientId m) < length (clients sim1)"
    by simp
  from Cons.IH[OF q this, of "stl g"] obtain sim2
    where "dispatchPendingMessages HeartbeatClient_handler sim1 (stl g)
             = Some (Inr (sim2, sdrop (length q) (stl g)))"
    by blast
  with s Cons.prems(1) show ?case
    by (subst dispatchPendingMessages.simps) simp
qed

text \<open>
  C8. A call of \<^verbatim>\<open>dispatchPendingMessages\<close> with a handler that only appends to the queue
  and leaves the two message counters alone (both clients' \<^verbatim>\<open>handleMessage\<close> do). The call
  returns exactly when the loop has a finite run; on return the queue is empty; the
  messages popped are the queue of the call, front first, followed by messages enqueued
  during the pass; \<^verbatim>\<open>totalMessagesSent\<close> grows by one for each popped message and
  \<^verbatim>\<open>totalDroppedMessages\<close> by one for each round whose \<^verbatim>\<open>rand() % 100\<close> is below 5. One
  round on the queue \<open>m # q\<close> counts the message, then either drops it (the draw is one of
  the 5 residues below 5 out of 100) or hands \<open>m\<close> to the handler of
  \<open>clients ! recipientId m\<close> with \<open>m\<close> still at the front, and pops it afterwards.
\<close>

theorem dispatchPendingMessages_drains:
  assumes h: "\<forall>c m q st g c2 q2 st2 g2. h c m q st g = Some (Inr (c2, q2, st2, g2)) \<longrightarrow>
                (\<exists>new. q2 = q @ new) \<and> totalMessagesSent st2 = totalMessagesSent st
                \<and> totalDroppedMessages st2 = totalDroppedMessages st"
  shows "(dispatchPendingMessages h sim g = Some (Inr (sim2, g2))
            \<longleftrightarrow> (\<exists>tr. dispatchPending_pops h sim g tr sim2 g2))
       \<and> (dispatchPending_pops h sim g tr sim2 g2 \<longrightarrow>
            messageQueue sim2 = []
            \<and> (\<exists>later. map fst tr = messageQueue sim @ later)
            \<and> totalMessagesSent (stats sim2)
                = totalMessagesSent (stats sim) + of_nat (length tr)
            \<and> totalDroppedMessages (stats sim2)
                = totalDroppedMessages (stats sim)
                  + of_nat (length (filter (\<lambda>e. snd e mod 100 < 5) tr)))
       \<and> (messageQueue sim = [] \<longrightarrow> dispatchPendingMessages h sim g = Some (Inr (sim, g)))
       \<and> (messageQueue sim = m # q \<longrightarrow>
            dispatchPendingMessages h sim g
              = (case dispatchPending_step h sim g of
                   None \<Rightarrow> None
                 | Some (Inl e) \<Rightarrow> Some (Inl e)
                 | Some (Inr (sim1, g1)) \<Rightarrow> dispatchPendingMessages h sim1 g1)
            \<and> dispatchPending_step h sim g
              = (if shd g mod 100 < 5 then
                   Some (Inr (sim\<lparr>stats := incrementMessagesDropped
                                             (incrementMessagesSent (stats sim)),
                                   messageQueue := q\<rparr>, stl g))
                 else if length (clients sim) \<le> unat (recipientId m) then
                   Some (Inl IndexOutOfRange)
                 else
                   (case h (clients sim ! unat (recipientId m)) m (m # q)
                             (incrementMessagesSent (stats sim)) (stl g) of
                      None \<Rightarrow> None
                    | Some (Inl e) \<Rightarrow> Some (Inl e)
                    | Some (Inr (c, q2, st2, g1)) \<Rightarrow>
                        Some (Inr (sim\<lparr>clients := (clients sim)[unat (recipientId m) := c],
                                        messageQueue := tl q2, stats := st2\<rparr>, g1)))))"
proof -
  have a: "dispatchPendingMessages h sim g = Some (Inr (sim2, g2))
             \<longleftrightarrow> (\<exists>tr. dispatchPending_pops h sim g tr sim2 g2)"
  proof
    assume "dispatchPendingMessages h sim g = Some (Inr (sim2, g2))"
    from dispatchPendingMessages_pops[OF this]
    show "\<exists>tr. dispatchPending_pops h sim g tr sim2 g2" by simp
  next
    assume "\<exists>tr. dispatchPending_pops h sim g tr sim2 g2"
    then show "dispatchPendingMessages h sim g = Some (Inr (sim2, g2))"
      by (blast intro: dispatchPending_pops_returns)
  qed
  have b: "dispatchPending_pops h sim g tr sim2 g2 \<longrightarrow>
            messageQueue sim2 = []
            \<and> (\<exists>later. map fst tr = messageQueue sim @ later)
            \<and> totalMessagesSent (stats sim2)
                = totalMessagesSent (stats sim) + of_nat (length tr)
            \<and> totalDroppedMessages (stats sim2)
                = totalDroppedMessages (stats sim)
                  + of_nat (length (filter (\<lambda>e. snd e mod 100 < 5) tr))"
    using dispatchPending_pops_effect[OF h, of sim g tr sim2 g2]
      dispatchPending_pops_empty[of h sim g tr sim2 g2]
    by blast
  have c: "messageQueue sim = [] \<longrightarrow> dispatchPendingMessages h sim g = Some (Inr (sim, g))"
    by (subst dispatchPendingMessages.simps) simp
  have d: "messageQueue sim = m # q \<longrightarrow>
            dispatchPendingMessages h sim g
              = (case dispatchPending_step h sim g of
                   None \<Rightarrow> None
                 | Some (Inl e) \<Rightarrow> Some (Inl e)
                 | Some (Inr (sim1, g1)) \<Rightarrow> dispatchPendingMessages h sim1 g1)"
    by (subst dispatchPendingMessages.simps)
      (auto split: option.splits sum.splits prod.splits)
  have e: "messageQueue sim = m # q \<longrightarrow> dispatchPending_step h sim g
              = (if shd g mod 100 < 5 then
                   Some (Inr (sim\<lparr>stats := incrementMessagesDropped
                                             (incrementMessagesSent (stats sim)),
                                   messageQueue := q\<rparr>, stl g))
                 else if length (clients sim) \<le> unat (recipientId m) then
                   Some (Inl IndexOutOfRange)
                 else
                   (case h (clients sim ! unat (recipientId m)) m (m # q)
                             (incrementMessagesSent (stats sim)) (stl g) of
                      None \<Rightarrow> None
                    | Some (Inl e) \<Rightarrow> Some (Inl e)
                    | Some (Inr (c, q2, st2, g1)) \<Rightarrow>
                        Some (Inr (sim\<lparr>clients := (clients sim)[unat (recipientId m) := c],
                                        messageQueue := tl q2, stats := st2\<rparr>, g1))))"
    using dispatchPending_step_unfold[of sim m q h g] by blast
  from a b c d e show ?thesis by blast
qed

lemma example_sim_step1:
  "\<exists>sim1 msg. dispatchPending_step GossipClient_handleMessage example_sim
                 (7 ## 0 ## 0 ## sconst 0) = Some (Inr (sim1, 0 ## sconst 0))
              \<and> messageQueue sim1 = [msg] \<and> recipientId msg = 1"
proof -
  let ?st = "incrementMessagesSent example_stats"
  let ?c = "fst (handleMessage_newCycle example_gossip example_message ?st)"
  have cap: "messagesSent ?c < 5" by (simp add: handleMessage_newCycle_messagesSent)
  have obs: "observers ?c \<noteq> []" by (simp add: handleMessage_newCycle_fields)
  have self: "clientId ?c \<notin> set (observers ?c)" by (simp add: handleMessage_newCycle_fields)
  note f = handleMessage_forward_result[OF cap obs self, of example_message
      "[example_message]" "snd (handleMessage_newCycle example_gossip example_message ?st)"
      "0 ## 0 ## sconst 0"]
  have q: "messageQueue example_sim = example_message # []" by (simp add: example_sim_def)
  have r: "recipientId example_message = 0" by (simp add: example_message_def)
  have cl: "clients example_sim = [example_gossip]" "stats example_sim = example_stats"
    by (simp_all add: example_sim_def)
  show ?thesis
    by (simp add: dispatchPending_step_unfold[OF q] r cl GossipClient_handleMessage_def
        isOnline_def case_prod_beta f handleMessage_newCycle_fields createMessage_def)
qed

theorem dispatchPendingMessages_drains_witness:
  "\<exists>sim2 m1.
     dispatchPendingMessages GossipClient_handleMessage example_sim (7 ## 0 ## 0 ## sconst 0)
       = Some (Inr (sim2, sconst 0))
     \<and> dispatchPending_pops GossipClient_handleMessage example_sim (7 ## 0 ## 0 ## sconst 0)
         [(example_message, 7), (m1, 0)] sim2 (sconst 0)
     \<and> recipientId m1 = 1
     \<and> messageQueue sim2 = []
     \<and> totalMessagesSent (stats sim2) = totalMessagesSent example_stats + 2
     \<and> totalDroppedMessages (stats sim2) = totalDroppedMessages example_stats + 1"
proof -
  let ?h = "GossipClient_handleMessage"
  have h: "\<forall>c m q st g c2 q2 st2 g2. ?h c m q st g = Some (Inr (c2, q2, st2, g2)) \<longrightarrow>
             (\<exists>new. q2 = q @ new) \<and> totalMessagesSent st2 = totalMessagesSent st
             \<and> totalDroppedMessages st2 = totalDroppedMessages st"
    using GossipClient_handleMessage_appends by blast
  from example_sim_step1 obtain sim1 m1
    where s1: "dispatchPending_step ?h example_sim (7 ## 0 ## 0 ## sconst 0)
                 = Some (Inr (sim1, 0 ## sconst 0))"
      and q1: "messageQueue sim1 = [m1]" and r1: "recipientId m1 = 1"
    by blast
  define sim2 where "sim2 = sim1\<lparr>stats := incrementMessagesDropped
                                            (incrementMessagesSent (stats sim1)),
                                  messageQueue := []\<rparr>"
  have s2: "dispatchPending_step ?h sim1 (0 ## sconst 0) = Some (Inr (sim2, sconst 0))"
    using q1 by (simp add: dispatchPending_step_unfold[of sim1 m1 "[]"] sim2_def)
  have p2: "dispatchPending_pops ?h sim2 (sconst 0) [] sim2 (sconst 0)"
    by (rule dispatchPending_pops.stop) (simp add: sim2_def)
  have p1: "dispatchPending_pops ?h sim1 (0 ## sconst 0)
              [(hd (messageQueue sim1), shd (0 ## sconst 0))] sim2 (sconst 0)"
    by (rule dispatchPending_pops.round[OF _ s2 p2]) (simp add: q1)
  have p0: "dispatchPending_pops ?h example_sim (7 ## 0 ## 0 ## sconst 0)
              ((hd (messageQueue example_sim), shd (7 ## 0 ## 0 ## sconst 0))
               # [(hd (messageQueue sim1), shd (0 ## sconst 0))]) sim2 (sconst 0)"
    by (rule dispatchPending_pops.round[OF _ s1 p1]) (simp add: example_sim_def)
  have p: "dispatchPending_pops ?h example_sim (7 ## 0 ## 0 ## sconst 0)
             [(example_message, 7), (m1, 0)] sim2 (sconst 0)"
    using p0 q1 by (simp add: example_sim_def)
  note t = dispatchPendingMessages_drains[OF h, of example_sim "7 ## 0 ## 0 ## sconst 0"
      sim2 "sconst 0" "[(example_message, 7), (m1, 0)]"]
  from t p have ret: "dispatchPendingMessages ?h example_sim (7 ## 0 ## 0 ## sconst 0)
                        = Some (Inr (sim2, sconst 0))"
    by blast
  from t p have e: "messageQueue sim2 = []"
    "totalMessagesSent (stats sim2)
       = totalMessagesSent (stats example_sim) + of_nat (length [(example_message, 7::nat), (m1, 0)])"
    "totalDroppedMessages (stats sim2)
       = totalDroppedMessages (stats example_sim)
         + of_nat (length (filter (\<lambda>e. snd e mod 100 < 5) [(example_message, 7::nat), (m1, 0)]))"
    by blast+
  have st: "stats example_sim = example_stats" by (simp add: example_sim_def)
  from e(2) have e2: "totalMessagesSent (stats sim2) = totalMessagesSent example_stats + 2"
    by (simp add: st)
  from e(3) have e3: "totalDroppedMessages (stats sim2) = totalDroppedMessages example_stats + 1"
    by (simp add: st)
  from ret p r1 e(1) e2 e3 show ?thesis by blast
qed

end
